theory Spec2Isabelle
  imports Main "HOL-Library.Multiset"
begin

section \<open>Strings, errors and tokens\<close>

text \<open>
  A JavaScript string is a sequence of UTF-16 code units. A code unit is modelled as an
  integer (from 0 to 65535) and a string as the list of its code units: \<^verbatim>\<open>s.length\<close> is
  the length of the list, \<^verbatim>\<open>s[i]\<close> its element at \<open>i\<close>, and \<^verbatim>\<open>s.slice(i)\<close> drops \<open>i\<close>
  code units. \<open>ascii\<close> gives the string of an ASCII literal.
\<close>

type_synonym unit16 = int

type_synonym jsstring = "unit16 list"

definition ascii :: "string \<Rightarrow> jsstring" where
  "ascii s = map of_char s"

text \<open>
  A character outside the Basic Multilingual Plane is two code units, a high surrogate
  followed by a low surrogate. The iteration \<^verbatim>\<open>for (const char of s)\<close> goes through the
  code points of the string: such a pair is one \<^verbatim>\<open>char\<close>, any other code unit (a surrogate
  without its partner too) is one \<^verbatim>\<open>char\<close> by itself.
\<close>

definition is_high :: "unit16 \<Rightarrow> bool" where
  "is_high u = (0xD800 \<le> u \<and> u \<le> 0xDBFF)"

definition is_low :: "unit16 \<Rightarrow> bool" where
  "is_low u = (0xDC00 \<le> u \<and> u \<le> 0xDFFF)"

fun code_points :: "jsstring \<Rightarrow> jsstring list" where
  "code_points [] = []"
| "code_points [a] = [[a]]"
| "code_points (a # b # rest) =
     (if is_high a \<and> is_low b then [a, b] # code_points rest
      else [a] # code_points (b # rest))"

text \<open>
  Every \<^verbatim>\<open>throw\<close> of the library is a value of \<open>error\<close>. Besides the library's own
  \<^verbatim>\<open>TokenizerError\<close> and \<^verbatim>\<open>ParserError\<close> (message, line, column), three errors of the
  platform can leave the code: the \<^verbatim>\<open>SyntaxError\<close> of \<^verbatim>\<open>new RegExp\<close> on a source that is
  not a regular expression, the \<^verbatim>\<open>TypeError\<close> of reading a property of \<^verbatim>\<open>undefined\<close>, and
  the \<^verbatim>\<open>RangeError\<close> of a recursion deeper than the call stack.
\<close>

datatype error =
    TokenizerError jsstring nat nat
  | ParserError jsstring nat nat
  | SyntaxError
  | TypeError
  | RangeError

text \<open>
  \<^verbatim>\<open>pattern: string | RegExp\<close>. The type \<open>'r\<close> is the type of \<^verbatim>\<open>RegExp\<close> objects.
\<close>

datatype 'r pattern = Lit jsstring | Rx 'r

text \<open>
  \<^verbatim>\<open>class Token { pattern; name?; skip; value }\<close> (\<^verbatim>\<open>name\<close> is \<^verbatim>\<open>undefined\<close> when \<open>None\<close>).
\<close>

record 'r token =
  tk_pattern :: "'r pattern"
  tk_name :: "jsstring option"
  tk_skip :: bool
  tk_value :: jsstring

text \<open>
  The constructor \<^verbatim>\<open>Token(pattern, name?, skip = false, value = "")\<close>, with all four
  arguments given, and with the three arguments the tokenizer gives (\<^verbatim>\<open>value\<close> takes its
  default, the empty string).
\<close>

definition Token :: "'r pattern \<Rightarrow> jsstring option \<Rightarrow> bool \<Rightarrow> jsstring \<Rightarrow> 'r token" where
  "Token p n s v = \<lparr>tk_pattern = p, tk_name = n, tk_skip = s, tk_value = v\<rparr>"

definition Token3 :: "'r pattern \<Rightarrow> jsstring option \<Rightarrow> bool \<Rightarrow> 'r token" where
  "Token3 p n s = Token p n s []"

fun isRegex :: "'r token \<Rightarrow> bool" where
  "isRegex t = (case tk_pattern t of Rx _ \<Rightarrow> True | Lit _ \<Rightarrow> False)"

section \<open>The regular expression engine of the platform\<close>

text \<open>
  The regular expression engine is the platform's, not the library's: it is a parameter of
  the model. A \<^verbatim>\<open>RegExp\<close> with the \<^verbatim>\<open>g\<close> or the \<^verbatim>\<open>y\<close> flag keeps a \<^verbatim>\<open>lastIndex\<close> from one call
  to the next, so the calls of the engine pass a state, of type \<open>'s\<close>: whatever the
  \<^verbatim>\<open>RegExp\<close> objects remember.
  \<^item> \<open>regexp_new src\<close> is \<^verbatim>\<open>new RegExp(src)\<close>: \<open>None\<close> when the constructor throws a
    \<^verbatim>\<open>SyntaxError\<close>.
  \<^item> \<open>regexp_match r s\<close> is \<^verbatim>\<open>s.match(r)\<close>: \<open>NoMatch\<close> for \<^verbatim>\<open>null\<close>; \<open>Match i n\<close> for the
    result of a regular expression without the \<^verbatim>\<open>g\<close> flag, whose \<^verbatim>\<open>index\<close> is \<open>i\<close> and whose
    element \<^verbatim>\<open>[0]\<close> is the \<open>n\<close> code units of \<open>s\<close> from \<open>i\<close> on; \<open>Matches\<close> for the array of
    all the matches that a regular expression with the \<^verbatim>\<open>g\<close> flag gives, which has no
    \<^verbatim>\<open>index\<close>.
  \<^item> \<open>regexp_test r s\<close> is \<^verbatim>\<open>r.test(s)\<close>.
\<close>

datatype js_match = NoMatch | Match nat nat | Matches

record ('r, 's) engine =
  regexp_new :: "jsstring \<Rightarrow> 'r option"
  regexp_match :: "'r \<Rightarrow> jsstring \<Rightarrow> 's \<Rightarrow> js_match \<times> 's"
  regexp_test :: "'r \<Rightarrow> jsstring \<Rightarrow> 's \<Rightarrow> bool \<times> 's"

section \<open>Tokenizer\<close>

record 'r tokenizer =
  t_tokens :: "'r token list"
  t_input :: jsstring
  t_position :: nat
  t_line :: nat
  t_column :: nat

definition Tokenizer :: "'r token list \<Rightarrow> jsstring \<Rightarrow> 'r tokenizer" where
  "Tokenizer tokens input =
     \<lparr>t_tokens = tokens, t_input = input, t_position = 0, t_line = 1, t_column = 1\<rparr>"

text \<open>
  \<^verbatim>\<open>matchToken\<close>: a \<^verbatim>\<open>RegExp\<close> pattern is used as it is, a string pattern is compiled from
  the source \<^verbatim>\<open>`^${token.pattern}`\<close>, which can throw. The result is \<^verbatim>\<open>match[0]\<close> when
  there is a match and \<^verbatim>\<open>match.index === 0\<close>, and \<^verbatim>\<open>null\<close> otherwise.
\<close>

definition caret :: unit16 where
  "caret = 0x5E"

definition matchToken ::
  "('r, 's) engine \<Rightarrow> 'r tokenizer \<Rightarrow> 'r token \<Rightarrow> 's \<Rightarrow> error + (jsstring option \<times> 's)" where
  "matchToken E this token st =
     (case (case tk_pattern token of
              Rx r \<Rightarrow> Some r
            | Lit s \<Rightarrow> regexp_new E (caret # s)) of
        None \<Rightarrow> Inl SyntaxError
      | Some pat \<Rightarrow>
          (let substring = drop (t_position this) (t_input this) in
           case regexp_match E pat substring st of
             (NoMatch, st') \<Rightarrow> Inr (None, st')
           | (Match i n, st') \<Rightarrow>
               Inr (if i = 0 then Some (take n substring) else None, st')
           | (Matches, st') \<Rightarrow> Inr (None, st')))"

text \<open>
  \<^verbatim>\<open>updatePosition\<close>: the position advances by the length of the match in code units, and
  the loop \<^verbatim>\<open>for (const char of match)\<close> moves line and column once for each code point
  of the match.
\<close>

definition newline :: unit16 where
  "newline = 0x0A"

fun advance :: "jsstring \<Rightarrow> nat \<times> nat \<Rightarrow> nat \<times> nat" where
  "advance ch (ln, col) = (if ch = [newline] then (ln + 1, 1) else (ln, col + 1))"

definition updatePosition :: "'r tokenizer \<Rightarrow> jsstring \<Rightarrow> 'r tokenizer" where
  "updatePosition this m =
     (let (ln, col) = fold advance (code_points m) (t_line this, t_column this)
      in this\<lparr>t_position := t_position this + length m, t_line := ln, t_column := col\<rparr>)"

text \<open>
  The inner loop of \<^verbatim>\<open>tokenize\<close>, \<^verbatim>\<open>for (const token of this.tokens)\<close>: a definition
  with \<^verbatim>\<open>skip\<close> set is passed over, \<^verbatim>\<open>matchToken\<close> is tried on the others, and the loop
  breaks at the first whose result is truthy. \<^verbatim>\<open>null\<close> and the empty string are both
  falsy, so an empty match does not win. The result is the winning definition with its
  match, or \<open>None\<close> when the loop ends with \<^verbatim>\<open>matched\<close> still false.
\<close>

fun firstMatch ::
  "('r, 's) engine \<Rightarrow> 'r tokenizer \<Rightarrow> 'r token list \<Rightarrow> 's \<Rightarrow>
     error + (('r token \<times> jsstring) option \<times> 's)" where
  "firstMatch E this [] st = Inr (None, st)"
| "firstMatch E this (token # rest) st =
     (if tk_skip token then firstMatch E this rest st
      else case matchToken E this token st of
             Inl e \<Rightarrow> Inl e
           | Inr (None, st') \<Rightarrow> firstMatch E this rest st'
           | Inr (Some m, st') \<Rightarrow>
               if m \<noteq> [] then Inr (Some (token, m), st') else firstMatch E this rest st')"

lemma firstMatch_nonempty:
  "firstMatch E this ts st = Inr (Some (token, m), st') \<Longrightarrow> m \<noteq> []"
  by (induction ts arbitrary: st) (auto split: if_splits sum.splits option.splits prod.splits)

definition dq :: unit16 where
  "dq = 0x22"

text \<open>
  The message \<^verbatim>\<open>`Unexpected character "${this.input[this.position]}"`\<close>: the text between
  the quotes is one code unit.
\<close>

definition unexpected :: "unit16 \<Rightarrow> jsstring" where
  "unexpected u = ascii ''Unexpected character '' @ [dq, u, dq]"

text \<open>
  The outer loop of \<^verbatim>\<open>tokenize\<close>, \<^verbatim>\<open>while (this.position < this.input.length)\<close>, with the
  array \<^verbatim>\<open>result\<close> as an accumulator. The token pushed is
  \<^verbatim>\<open>new Token(token.pattern, token.name, false)\<close>.
\<close>

function tokenize_loop ::
  "('r, 's) engine \<Rightarrow> 'r tokenizer \<Rightarrow> 'r token list \<Rightarrow> 's \<Rightarrow>
     error + ('r token list \<times> 'r tokenizer \<times> 's)" where
  "tokenize_loop E this result st =
     (if t_position this < length (t_input this) then
        (case firstMatch E this (t_tokens this) st of
           Inl e \<Rightarrow> Inl e
         | Inr (None, st') \<Rightarrow>
             Inl (TokenizerError (unexpected (t_input this ! t_position this))
                    (t_line this) (t_column this))
         | Inr (Some (token, m), st') \<Rightarrow>
             tokenize_loop E (updatePosition this m)
               (result @ [Token3 (tk_pattern token) (tk_name token) False]) st')
      else Inr (result, this, st))"
  by pat_completeness auto
termination
proof (relation "measure (\<lambda>(E, this, result, st). length (t_input this) - t_position this)")
  show "wf (measure (\<lambda>(E, this, result, st). length (t_input this) - t_position this))"
    by simp
next
  fix E :: "('r, 's) engine" and this :: "'r tokenizer" and result :: "'r token list"
    and st :: 's and x2 x1 st' x2a tm token m
  assume lt: "t_position this < length (t_input this)"
    and fm: "firstMatch E this (t_tokens this) st = Inr x2" "(x1, st') = x2" "x1 = Some tm"
      "(token, m) = tm"
  from fm have "firstMatch E this (t_tokens this) st = Inr (Some (token, m), st')"
    by auto
  then have "m \<noteq> []" by (rule firstMatch_nonempty)
  then obtain c cs where "m = c # cs" by (cases m) auto
  with lt show "((E, updatePosition this m,
        result @ [Token3 (tk_pattern token) (tk_name token) False], st'), (E, this, result, st))
      \<in> measure (\<lambda>(E, this, result, st). length (t_input this) - t_position this)"
    by (simp add: updatePosition_def split: prod.splits)
qed

declare tokenize_loop.simps [simp del]

definition tokenize ::
  "('r, 's) engine \<Rightarrow> 'r tokenizer \<Rightarrow> 's \<Rightarrow> error + ('r token list \<times> 'r tokenizer \<times> 's)" where
  "tokenize E this st = tokenize_loop E this [] st"

section \<open>A regular expression engine for concrete runs\<close>

text \<open>
  The theorems below hold for every engine. To run the model on a concrete input, this
  section gives one engine for a fragment of the regular expressions of ECMAScript
  without flags: the empty pattern, a code unit, \<^verbatim>\<open>\d\<close>, concatenation, alternation and
  the greedy star (\<^verbatim>\<open>r+\<close> is \<^verbatim>\<open>rr*\<close>), searched from every start index or, after a
  leading \<^verbatim>\<open>^\<close>, at index 0 only. A regular expression without flags remembers nothing:
  the state of this engine is \<open>unit\<close>.

  \<open>lens r s\<close> lists the lengths of the prefixes of \<open>s\<close> that \<open>r\<close> matches, in the order
  in which the backtracking matcher of the language tries them: the left alternative
  first, one more iteration of a star before none, and no iteration that matches the empty
  string. The first of them is the match.
\<close>

datatype rx = Eps | Chr unit16 | Digit | Seq rx rx | Alt rx rx | Star rx

definition is_digit :: "unit16 \<Rightarrow> bool" where
  "is_digit u = (u \<in> set (ascii ''0123456789''))"

function lens :: "rx \<Rightarrow> jsstring \<Rightarrow> nat list" where
  "lens Eps s = [0]"
| "lens (Chr c) s = (case s of [] \<Rightarrow> [] | x # _ \<Rightarrow> if x = c then [1] else [])"
| "lens Digit s = (case s of [] \<Rightarrow> [] | x # _ \<Rightarrow> if is_digit x then [1] else [])"
| "lens (Seq a b) s = concat (map (\<lambda>i. map (\<lambda>j. i + j) (lens b (drop i s))) (lens a s))"
| "lens (Alt a b) s = lens a s @ lens b s"
| "lens (Star a) s =
     concat (map (\<lambda>i. if 0 < i \<and> i \<le> length s
                        then map (\<lambda>j. i + j) (lens (Star a) (drop i s)) else [])
                 (lens a s)) @ [0]"
  by pat_completeness auto
termination
  by (relation "measures [\<lambda>(r, s). length s, \<lambda>(r, s). size r]") auto

definition Plus :: "rx \<Rightarrow> rx" where
  "Plus r = Seq r (Star r)"

record regexp =
  anchored :: bool
  body :: rx

fun search :: "rx \<Rightarrow> jsstring \<Rightarrow> nat \<Rightarrow> (nat \<times> nat) option" where
  "search r [] i = (case lens r [] of n # _ \<Rightarrow> Some (i, n) | [] \<Rightarrow> None)"
| "search r (x # xs) i =
     (case lens r (x # xs) of n # _ \<Rightarrow> Some (i, n) | [] \<Rightarrow> search r xs (Suc i))"

text \<open>The match of a regular expression in a string: its index and its length.\<close>

definition rx_exec :: "regexp \<Rightarrow> jsstring \<Rightarrow> (nat \<times> nat) option" where
  "rx_exec re s =
     (if anchored re
      then (case lens (body re) s of n # _ \<Rightarrow> Some (0, n) | [] \<Rightarrow> None)
      else search (body re) s 0)"

definition rx_match :: "regexp \<Rightarrow> jsstring \<Rightarrow> unit \<Rightarrow> js_match \<times> unit" where
  "rx_match re s st = (case rx_exec re s of None \<Rightarrow> NoMatch | Some (i, n) \<Rightarrow> Match i n, st)"

definition rx_test :: "regexp \<Rightarrow> jsstring \<Rightarrow> unit \<Rightarrow> bool \<times> unit" where
  "rx_test re s st = (rx_exec re s \<noteq> None, st)"

text \<open>
  \<^verbatim>\<open>new RegExp(src)\<close> is modelled on the sources the tokenizer builds from a string
  pattern, \<^verbatim>\<open>^\<close> followed by the pattern, in two cases. When the pattern has no syntax
  character, the regular expression matches the pattern itself at index 0. When the
  pattern begins with a quantifier (\<^verbatim>\<open>*\<close>, \<^verbatim>\<open>+\<close> or \<^verbatim>\<open>?\<close>) there is nothing for it to
  repeat after the assertion \<^verbatim>\<open>^\<close>, and the constructor throws a \<^verbatim>\<open>SyntaxError\<close>. Other
  sources are outside the fragment: \<open>in_fragment\<close> says which sources \<open>rx_new\<close> models,
  and no run below leaves them.
\<close>

definition syntax_char :: "unit16 \<Rightarrow> bool" where
  "syntax_char u = (u \<in> set (ascii ''^$.*+?()[]{}|'') \<or> u = 0x5C)"

definition quantifier_char :: "unit16 \<Rightarrow> bool" where
  "quantifier_char u = (u \<in> set (ascii ''*+?''))"

fun literal :: "jsstring \<Rightarrow> rx" where
  "literal [] = Eps"
| "literal (c # cs) = Seq (Chr c) (literal cs)"

definition in_fragment :: "jsstring \<Rightarrow> bool" where
  "in_fragment src =
     (case src of
        [] \<Rightarrow> False
      | c # rest \<Rightarrow> c = caret \<and>
          (list_all (\<lambda>u. \<not> syntax_char u) rest \<or>
           (case rest of [] \<Rightarrow> False | q # _ \<Rightarrow> quantifier_char q)))"

definition rx_new :: "jsstring \<Rightarrow> regexp option" where
  "rx_new src =
     (case src of
        [] \<Rightarrow> None
      | c # rest \<Rightarrow>
          if c = caret \<and> list_all (\<lambda>u. \<not> syntax_char u) rest
          then Some \<lparr>anchored = True, body = literal rest\<rparr>
          else None)"

definition js_engine :: "(regexp, unit) engine" where
  "js_engine = \<lparr>regexp_new = rx_new, regexp_match = rx_match, regexp_test = rx_test\<rparr>"

text \<open>
  \<^verbatim>\<open>/\d+/\<close>, and for a code unit \<open>c\<close> the regular expressions \<^verbatim>\<open>/c*/\<close> and \<^verbatim>\<open>/c/\<close>
  (for \<^verbatim>\<open>+\<close>, the regular expression written \<^verbatim>\<open>/\+/\<close>).
\<close>

definition digits :: regexp where
  "digits = \<lparr>anchored = False, body = Plus Digit\<rparr>"


definition one_char :: "unit16 \<Rightarrow> regexp" where
  "one_char c = \<lparr>anchored = False, body = Chr c\<rparr>"

text \<open>The sources that the runs below compile are in the fragment.\<close>

lemma runs_in_fragment:
  "in_fragment (ascii ''^+'') \<and> in_fragment (ascii ''^ab'') \<and> in_fragment [caret, newline]"
  by code_simp

section \<open>Grammar\<close>

datatype Associativity = LEFT | RIGHT | NONASSOC

text \<open>
  \<^verbatim>\<open>class GrammarRule { tokens; associativity?; precedence?; name? }\<close>. An optional field
  that is \<^verbatim>\<open>undefined\<close> is \<open>None\<close>. A precedence is a number of the language; the model
  takes the integers, on which the sign of a difference is the order of its operands, as
  it is on the finite numbers of the language.
\<close>

record 'r GrammarRule =
  r_tokens :: "'r token list"
  r_associativity :: "Associativity option"
  r_precedence :: "int option"
  r_name :: "jsstring option"

text \<open>
  The constructor \<^verbatim>\<open>GrammarRule(tokens, associativity = NONASSOC, precedence?, name?)\<close>:
  an associativity that is not given takes the default.
\<close>

definition GrammarRule ::
  "'r token list \<Rightarrow> Associativity option \<Rightarrow> int option \<Rightarrow> jsstring option \<Rightarrow> 'r GrammarRule" where
  "GrammarRule tokens associativity precedence name =
     \<lparr>r_tokens = tokens,
      r_associativity = Some (case associativity of None \<Rightarrow> NONASSOC | Some a \<Rightarrow> a),
      r_precedence = precedence, r_name = name\<rparr>"

text \<open>
  An array of rules is an object: \<^verbatim>\<open>sort\<close> changes it in place and \<^verbatim>\<open>slice\<close> makes a new
  one. The arrays of rules live in a store, \<open>arr\<close> from references to contents, with
  \<open>arr_next\<close> the first reference not yet in use. A \<^verbatim>\<open>Grammar\<close> holds the reference of its
  \<^verbatim>\<open>rules\<close>.
\<close>

record 'r arrays =
  arr :: "nat \<Rightarrow> 'r GrammarRule list"
  arr_next :: nat

record Grammar =
  rules :: nat

definition array_new :: "'r arrays \<Rightarrow> 'r GrammarRule list \<Rightarrow> 'r arrays \<times> nat" where
  "array_new A xs = (A\<lparr>arr := (arr A)(arr_next A := xs), arr_next := Suc (arr_next A)\<rparr>, arr_next A)"

definition Grammar_new :: "'r arrays \<Rightarrow> 'r arrays \<times> Grammar" where
  "Grammar_new A = (let (A', a) = array_new A [] in (A', \<lparr>rules = a\<rparr>))"

definition addRule :: "'r arrays \<Rightarrow> Grammar \<Rightarrow> 'r GrammarRule \<Rightarrow> 'r arrays" where
  "addRule A this rule = A\<lparr>arr := (arr A)(rules this := arr A (rules this) @ [rule])\<rparr>"






text \<open>
  \<^verbatim>\<open>getRulesByAssociativity(associativity?)\<close>: \<^verbatim>\<open>filter\<close> makes a new array; every value of
  the enumeration is a non-empty string, so \<^verbatim>\<open>!associativity\<close> holds only when the
  argument is not given.
\<close>

definition getRulesByAssociativity ::
  "'r arrays \<Rightarrow> Grammar \<Rightarrow> Associativity option \<Rightarrow> 'r arrays \<times> nat" where
  "getRulesByAssociativity A this associativity =
     array_new A (filter (\<lambda>rule. associativity = None \<or> r_associativity rule = associativity)
                    (arr A (rules this)))"


section \<open>Node\<close>

text \<open>
  A \<^verbatim>\<open>Node\<close> is an object with an identity: the leaves of a tree, the children of a node
  and its parent are references to nodes, and \<^verbatim>\<open>addNode\<close> compares references
  (\<^verbatim>\<open>leaf !== parent\<close>). The array of the children of a node is an object too: the
  constructor keeps the array it is given, so two nodes built on one array share their
  children, and a \<^verbatim>\<open>push\<close> on the children of one is a \<^verbatim>\<open>push\<close> on the children of the other.
  The heap holds the nodes (\<open>cells\<close>, with \<open>fresh\<close> the first node reference not yet in
  use) and the arrays of nodes (\<open>kids\<close>, with \<open>fresh_kids\<close> the first array reference not
  yet in use); the field \<open>n_children\<close> of a node is the reference of its array.
\<close>

record 'r Node =
  n_value :: "'r token"
  n_token :: jsstring
  n_children :: nat
  n_line :: nat
  n_position :: nat
  n_parent :: "nat option"

record 'r heap =
  cells :: "nat \<Rightarrow> 'r Node"
  kids :: "nat \<Rightarrow> nat list"
  fresh :: nat
  fresh_kids :: nat

text \<open>An array literal \<^verbatim>\<open>[x, ...]\<close>, and the default \<^verbatim>\<open>[]\<close> of a parameter: a new array.\<close>

definition array_lit :: "'r heap \<Rightarrow> nat list \<Rightarrow> 'r heap \<times> nat" where
  "array_lit h xs =
     (h\<lparr>kids := (kids h)(fresh_kids h := xs), fresh_kids := Suc (fresh_kids h)\<rparr>, fresh_kids h)"

text \<open>
  The constructor \<^verbatim>\<open>Node(value, token, children, line, position)\<close> on an array that
  exists (\<open>children\<close> is its reference); \<^verbatim>\<open>parent\<close> starts as \<^verbatim>\<open>null\<close>.
\<close>

definition Node_new ::
  "'r heap \<Rightarrow> 'r token \<Rightarrow> jsstring \<Rightarrow> nat \<Rightarrow> nat \<Rightarrow> nat \<Rightarrow> 'r heap \<times> nat" where
  "Node_new h v token children line position =
     (h\<lparr>cells := (cells h)(fresh h :=
            \<lparr>n_value = v, n_token = token, n_children = children, n_line = line,
             n_position = position, n_parent = None\<rparr>),
        fresh := Suc (fresh h)\<rparr>,
      fresh h)"

text \<open>
  The constructor on an array literal, \<^verbatim>\<open>new Node(value, token, [x, ...], line, position)\<close>,
  or with the default \<^verbatim>\<open>children = []\<close>.
\<close>

definition Node_lit ::
  "'r heap \<Rightarrow> 'r token \<Rightarrow> jsstring \<Rightarrow> nat list \<Rightarrow> nat \<Rightarrow> nat \<Rightarrow> 'r heap \<times> nat" where
  "Node_lit h v token xs line position =
     (let (h1, a) = array_lit h xs in Node_new h1 v token a line position)"

text \<open>\<^verbatim>\<open>node.children\<close>, as the list of the elements of the array.\<close>

definition children_of :: "'r heap \<Rightarrow> nat \<Rightarrow> nat list" where
  "children_of h n = kids h (n_children (cells h n))"

text \<open>\<^verbatim>\<open>node.children.push(child)\<close>: the array changes, for every node that holds it.\<close>

definition push_child :: "'r heap \<Rightarrow> nat \<Rightarrow> nat \<Rightarrow> 'r heap" where
  "push_child h n child =
     h\<lparr>kids := (kids h)(n_children (cells h n) := kids h (n_children (cells h n)) @ [child])\<rparr>"

text \<open>
  \<^verbatim>\<open>appendChild(childValue, token = "", line = 0, position = 0)\<close>: a new node on a new
  empty array, its parent set to the receiver, pushed on the receiver's children.
\<close>

definition appendChild :: "'r heap \<Rightarrow> nat \<Rightarrow> 'r token \<Rightarrow> jsstring \<Rightarrow> nat \<Rightarrow> nat \<Rightarrow> 'r heap" where
  "appendChild h this childValue token line position =
     (let (h1, childNode) = Node_lit h childValue token [] line position;
          h2 = h1\<lparr>cells := (cells h1)(childNode := (cells h1 childNode)\<lparr>n_parent := Some this\<rparr>)\<rparr>
      in push_child h2 this childNode)"

definition getParent :: "'r heap \<Rightarrow> nat \<Rightarrow> nat option" where
  "getParent h this = n_parent (cells h this)"

definition hasChildren :: "'r heap \<Rightarrow> nat \<Rightarrow> bool" where
  "hasChildren h this = (length (children_of h this) > 0)"

definition findChildByToken :: "'r heap \<Rightarrow> nat \<Rightarrow> jsstring \<Rightarrow> nat option" where
  "findChildByToken h this token =
     find (\<lambda>child. n_token (cells h child) = token) (children_of h this)"

text \<open>
  The traversals recurse on the children; on a heap where a node is its own descendant the
  recursion does not end, and the platform stops it with a \<^verbatim>\<open>RangeError\<close> when the call
  stack is full. The first argument is the number of nested calls the stack still has room
  for. The callback of \<^verbatim>\<open>getNodesPreOrder\<close> and \<^verbatim>\<open>getNodesPostOrder\<close> pushes the node on an
  array: the result is that array.
\<close>

fun seq_all :: "(error + 'a list) list \<Rightarrow> error + 'a list" where
  "seq_all [] = Inr []"
| "seq_all (x # xs) =
     (case x of
        Inl e \<Rightarrow> Inl e
      | Inr a \<Rightarrow> (case seq_all xs of Inl e \<Rightarrow> Inl e | Inr b \<Rightarrow> Inr (a @ b)))"

fun traversePreOrder :: "nat \<Rightarrow> 'r heap \<Rightarrow> nat \<Rightarrow> error + nat list" where
  "traversePreOrder 0 h this = Inl RangeError"
| "traversePreOrder (Suc k) h this =
     (case seq_all (map (traversePreOrder k h) (children_of h this)) of
        Inl e \<Rightarrow> Inl e
      | Inr below \<Rightarrow> Inr (this # below))"

fun traversePostOrder :: "nat \<Rightarrow> 'r heap \<Rightarrow> nat \<Rightarrow> error + nat list" where
  "traversePostOrder 0 h this = Inl RangeError"
| "traversePostOrder (Suc k) h this =
     (case seq_all (map (traversePostOrder k h) (children_of h this)) of
        Inl e \<Rightarrow> Inl e
      | Inr below \<Rightarrow> Inr (below @ [this]))"

section \<open>AstTree\<close>

text \<open>
  \<^verbatim>\<open>class AstTree { root; leaves }\<close>. The array \<^verbatim>\<open>leaves\<close> is made by the tree (the
  constructor and \<^verbatim>\<open>filter\<close> make a new array) and is held in the record.
\<close>

record AstTree =
  root :: nat
  leaves :: "nat list"

definition getNodesPreOrder :: "nat \<Rightarrow> 'r heap \<Rightarrow> AstTree \<Rightarrow> error + nat list" where
  "getNodesPreOrder k h this = traversePreOrder k h (root this)"

definition getNodesPostOrder :: "nat \<Rightarrow> 'r heap \<Rightarrow> AstTree \<Rightarrow> error + nat list" where
  "getNodesPostOrder k h this = traversePostOrder k h (root this)"

definition findLeaves :: "nat \<Rightarrow> 'r heap \<Rightarrow> AstTree \<Rightarrow> error + nat list" where
  "findLeaves k h this =
     (case getNodesPreOrder k h this of
        Inl e \<Rightarrow> Inl e
      | Inr nodes \<Rightarrow> Inr (filter (\<lambda>node. length (children_of h node) = 0) nodes))"

text \<open>
  The constructor: \<^verbatim>\<open>this.leaves = root.children.length === 0 ? [root] : this.findLeaves()\<close>.
\<close>

definition AstTree_new :: "nat \<Rightarrow> 'r heap \<Rightarrow> nat \<Rightarrow> error + AstTree" where
  "AstTree_new k h r =
     (if length (children_of h r) = 0 then Inr \<lparr>root = r, leaves = [r]\<rparr>
      else case findLeaves k h \<lparr>root = r, leaves = []\<rparr> of
             Inl e \<Rightarrow> Inl e
           | Inr ls \<Rightarrow> Inr \<lparr>root = r, leaves = ls\<rparr>)"

text \<open>
  \<^verbatim>\<open>addNode(node, parent = this.root)\<close>. Both tests read the heap after the push.
\<close>

definition addNode :: "'r heap \<Rightarrow> AstTree \<Rightarrow> nat \<Rightarrow> nat \<Rightarrow> 'r heap \<times> AstTree" where
  "addNode h this node parent =
     (let h1 = push_child h parent node;
          t1 = (if length (children_of h1 parent) = 1
                then this\<lparr>leaves := filter (\<lambda>leaf. leaf \<noteq> parent) (leaves this)\<rparr>
                else this);
          t2 = (if length (children_of h1 node) = 0
                then t1\<lparr>leaves := leaves t1 @ [node]\<rparr>
                else t1)
      in (h1, t2))"

definition addNode_root :: "'r heap \<Rightarrow> AstTree \<Rightarrow> nat \<Rightarrow> 'r heap \<times> AstTree" where
  "addNode_root h this node = addNode h this node (root this)"

section \<open>Parser\<close>

record 'r Parser =
  p_grammar :: Grammar
  p_tokens :: "'r token list"
  p_position :: nat

text \<open>
  The constructor tokenizes the input with the definitions of all the rules,
  \<^verbatim>\<open>grammar.rules.flatMap((rule) => rule.tokens)\<close>; an error of the tokenizer leaves the
  constructor.
\<close>

definition Parser_new ::
  "('r, 's) engine \<Rightarrow> 'r arrays \<Rightarrow> Grammar \<Rightarrow> jsstring \<Rightarrow> 's \<Rightarrow> error + ('r Parser \<times> 's)" where
  "Parser_new E A grammar input st =
     (case tokenize E (Tokenizer (concat (map r_tokens (arr A (rules grammar)))) input) st of
        Inl e \<Rightarrow> Inl e
      | Inr (ts, _, st') \<Rightarrow> Inr (\<lparr>p_grammar = grammar, p_tokens = ts, p_position = 0\<rparr>, st'))"

text \<open>
  \<^verbatim>\<open>isMatch\<close> in \<^verbatim>\<open>Parser.matchToken\<close>: the pattern of the rule's definition accepts the
  \<^verbatim>\<open>value\<close> of the token at the cursor, a regular expression by \<^verbatim>\<open>test\<close>, a string by
  equality.
\<close>

definition isMatch ::
  "('r, 's) engine \<Rightarrow> 'r token \<Rightarrow> 'r token \<Rightarrow> 's \<Rightarrow> bool \<times> 's" where
  "isMatch E tokenRule currentToken st =
     (case tk_pattern tokenRule of
        Rx r \<Rightarrow> regexp_test E r (tk_value currentToken) st
      | Lit s \<Rightarrow> (s = tk_value currentToken, st))"

text \<open>
  \<^verbatim>\<open>Parser.matchToken\<close>: \<^verbatim>\<open>null\<close> at the end of the stream; otherwise the token at the
  cursor when \<^verbatim>\<open>isMatch\<close> holds, with the cursor moved by one, and \<^verbatim>\<open>null\<close> when not.
\<close>

definition Parser_matchToken ::
  "('r, 's) engine \<Rightarrow> 'r Parser \<Rightarrow> 'r token \<Rightarrow> 's \<Rightarrow> 'r token option \<times> 'r Parser \<times> 's" where
  "Parser_matchToken E this tokenRule st =
     (if p_position this \<ge> length (p_tokens this) then (None, this, st)
      else
        (let currentToken = p_tokens this ! p_position this
         in case isMatch E tokenRule currentToken st of
              (True, st') \<Rightarrow> (Some currentToken, this\<lparr>p_position := p_position this + 1\<rparr>, st')
            | (False, st') \<Rightarrow> (None, this, st')))"

text \<open>\<^verbatim>\<open>x || ""\<close> on an optional string, and an optional string inside a template.\<close>

definition or_empty :: "jsstring option \<Rightarrow> jsstring" where
  "or_empty x = (case x of None \<Rightarrow> [] | Some s \<Rightarrow> s)"

definition in_template :: "jsstring option \<Rightarrow> jsstring" where
  "in_template x = (case x of None \<Rightarrow> ascii ''undefined'' | Some s \<Rightarrow> s)"

text \<open>
  \<^verbatim>\<open>currentToken?.name || "end of input"\<close>, where \<^verbatim>\<open>currentToken\<close> is
  \<^verbatim>\<open>this.tokens[this.position]\<close>: the name of the token at the cursor when there is a token
  and its name is a non-empty string.
\<close>

definition found_name :: "'r Parser \<Rightarrow> jsstring" where
  "found_name this =
     (if p_position this < length (p_tokens this)
      then (case tk_name (p_tokens this ! p_position this) of
              None \<Rightarrow> ascii ''end of input''
            | Some s \<Rightarrow> if s = [] then ascii ''end of input'' else s)
      else ascii ''end of input'')"

definition expected_msg :: "'r token \<Rightarrow> jsstring \<Rightarrow> jsstring" where
  "expected_msg tokenRule found =
     ascii ''Expected token '' @ [dq] @ in_template (tk_name tokenRule) @ [dq] @
     ascii '' but found '' @ [dq] @ found @ [dq]"

text \<open>
  The loop of \<^verbatim>\<open>matchRule\<close> over \<^verbatim>\<open>rule.tokens\<close>: a matched token becomes a child of the
  root node, at line 0 and at the position of the cursor after the match; the first token
  that does not match throws.
\<close>

fun matchRule_loop ::
  "('r, 's) engine \<Rightarrow> 'r Parser \<Rightarrow> 'r heap \<Rightarrow> nat \<Rightarrow> 'r token list \<Rightarrow> 's \<Rightarrow>
     error + ('r Parser \<times> 'r heap \<times> 's)" where
  "matchRule_loop E this h rootNode [] st = Inr (this, h, st)"
| "matchRule_loop E this h rootNode (tokenRule # rest) st =
     (case Parser_matchToken E this tokenRule st of
        (Some token, this', st') \<Rightarrow>
          matchRule_loop E this'
            (appendChild h rootNode token (or_empty (tk_name token)) 0 (p_position this'))
            rootNode rest st'
      | (None, this', st') \<Rightarrow>
          Inl (ParserError (expected_msg tokenRule (found_name this')) 0 (p_position this')))"

text \<open>
  \<^verbatim>\<open>matchRule\<close>: the root node is
  \<^verbatim>\<open>new Node(new Token(rule.name || "", rule.name || "", false, ""), rule.name || "", [], 0, 0)\<close>.
\<close>

definition matchRule ::
  "('r, 's) engine \<Rightarrow> 'r Parser \<Rightarrow> 'r heap \<Rightarrow> 'r GrammarRule \<Rightarrow> 's \<Rightarrow>
     error + (nat \<times> 'r Parser \<times> 'r heap \<times> 's)" where
  "matchRule E this h rule st =
     (let nm = or_empty (r_name rule);
          (h1, rootNode) = Node_lit h (Token (Lit nm) (Some nm) False []) nm [] 0 0
      in case matchRule_loop E this h1 rootNode (r_tokens rule) st of
           Inl e \<Rightarrow> Inl e
         | Inr (this', h', st') \<Rightarrow> Inr (rootNode, this', h', st'))"

text \<open>
  \<^verbatim>\<open>parse\<close>: the root rule is \<^verbatim>\<open>this.grammar.rules[0]\<close>, which is \<^verbatim>\<open>undefined\<close> for a
  grammar with no rule; \<^verbatim>\<open>matchRule\<close> then reads \<^verbatim>\<open>rule.name\<close> and throws a \<^verbatim>\<open>TypeError\<close>.
\<close>

definition parse ::
  "('r, 's) engine \<Rightarrow> 'r arrays \<Rightarrow> nat \<Rightarrow> 'r Parser \<Rightarrow> 'r heap \<Rightarrow> 's \<Rightarrow>
     error + (AstTree \<times> 'r Parser \<times> 'r heap \<times> 's)" where
  "parse E A k this h st =
     (case arr A (rules (p_grammar this)) of
        [] \<Rightarrow> Inl TypeError
      | rootRule # _ \<Rightarrow>
          (case matchRule E this h rootRule st of
             Inl e \<Rightarrow> Inl e
           | Inr (rootNode, this', h', st') \<Rightarrow>
               (case AstTree_new k h' rootNode of
                  Inl e \<Rightarrow> Inl e
                | Inr tree \<Rightarrow> Inr (tree, this', h', st'))))"

text \<open>\<^verbatim>\<open>new Parser(grammar, input).parse()\<close>.\<close>

definition parse_input ::
  "('r, 's) engine \<Rightarrow> 'r arrays \<Rightarrow> nat \<Rightarrow> Grammar \<Rightarrow> jsstring \<Rightarrow> 'r heap \<Rightarrow> 's \<Rightarrow>
     error + (AstTree \<times> 'r Parser \<times> 'r heap \<times> 's)" where
  "parse_input E A k grammar input h st =
     (case Parser_new E A grammar input st of
        Inl e \<Rightarrow> Inl e
      | Inr (this, st') \<Rightarrow> parse E A k this h st')"

section \<open>The tokenizer: positions, errors and termination\<close>

text \<open>
  The count of lines and columns by hand, in the words of the specification: the line starts
  at 1 and grows at each newline, where the column goes back to 1; the column starts at 1
  and grows at every other character. The characters of a string are its code points.
\<close>

fun manual_step :: "nat \<times> nat \<Rightarrow> jsstring \<Rightarrow> nat \<times> nat" where
  "manual_step (l, c) ch = (if ch = [newline] then (l + 1, 1) else (l, c + 1))"

definition manual_count :: "jsstring \<Rightarrow> nat \<times> nat" where
  "manual_count s = foldl manual_step (1, 1) (code_points s)"

text \<open>
  The same count in closed form: the line is one more than the number of newlines, the
  column one more than the number of characters after the last newline.
\<close>

lemma foldl_manual_step_closed:
  "foldl manual_step (1, 1) cps =
     (Suc (length (filter (\<lambda>c. c = [newline]) cps)),
      Suc (length (takeWhile (\<lambda>c. c \<noteq> [newline]) (rev cps))))"
  by (induction cps rule: rev_induct) simp_all

lemma manual_count_closed:
  "manual_count s =
     (Suc (length (filter (\<lambda>c. c = [newline]) (code_points s))),
      Suc (length (takeWhile (\<lambda>c. c \<noteq> [newline]) (rev (code_points s)))))"
  unfolding manual_count_def by (rule foldl_manual_step_closed)

text \<open>
  An offset of a string splits a character when it stands between a high surrogate and the
  low surrogate that follows it. The code points of two strings put together are the code
  points of the one followed by those of the other, unless the seam splits a character.
\<close>

definition splits_pair :: "jsstring \<Rightarrow> nat \<Rightarrow> bool" where
  "splits_pair s p = (0 < p \<and> p < length s \<and> is_high (s ! (p - 1)) \<and> is_low (s ! p))"

lemma code_points_append:
  "\<not> (xs \<noteq> [] \<and> ys \<noteq> [] \<and> is_high (last xs) \<and> is_low (hd ys)) \<Longrightarrow>
   code_points (xs @ ys) = code_points xs @ code_points ys"
proof (induction xs rule: code_points.induct)
  case 1
  then show ?case by simp
next
  case (2 a)
  then show ?case by (cases ys) auto
next
  case (3 a b rest)
  show ?case
  proof (cases "is_high a \<and> is_low b")
    case True
    have "\<not> (rest \<noteq> [] \<and> ys \<noteq> [] \<and> is_high (last rest) \<and> is_low (hd ys))"
      using "3.prems" by auto
    with True "3.IH"(1) show ?thesis by simp
  next
    case False
    have cond: "\<not> (b # rest \<noteq> [] \<and> ys \<noteq> [] \<and> is_high (last (b # rest)) \<and> is_low (hd ys))"
      using "3.prems" by auto
    have l: "code_points ((a # b # rest) @ ys) = [a] # code_points ((b # rest) @ ys)"
      using False by auto
    have r: "code_points (a # b # rest) = [a] # code_points (b # rest)"
      using False by auto
    have ih: "code_points ((b # rest) @ ys) = code_points (b # rest) @ code_points ys"
      using "3.IH"(2) [OF False cond] .
    show ?thesis by (simp only: l r ih) simp
  qed
qed

text \<open>
  \<open>consumes E tokens input st0 p st\<close>: from the engine state \<open>st0\<close>, the loop of
  \<^verbatim>\<open>tokenize\<close> reaches the offset \<open>p\<close> of the input with the engine in the state \<open>st\<close>, each
  step from an offset being the match of the definition that wins there, and no match
  beginning at an offset that splits a character.
\<close>

inductive consumes ::
  "('r, 's) engine \<Rightarrow> 'r token list \<Rightarrow> jsstring \<Rightarrow> 's \<Rightarrow> nat \<Rightarrow> 's \<Rightarrow> bool"
  for E :: "('r, 's) engine" and tokens :: "'r token list" and input :: jsstring and st0 :: 's
  where
  start: "consumes E tokens input st0 0 st0"
| step: "consumes E tokens input st0 p st \<Longrightarrow>
         \<not> splits_pair input p \<Longrightarrow>
         firstMatch E ((Tokenizer tokens input)\<lparr>t_position := p\<rparr>) tokens st =
           Inr (Some (token, m), st') \<Longrightarrow>
         consumes E tokens input st0 (p + length m) st'"

code_pred consumes .

lemma matchToken_cong:
  "t_position a = t_position b \<Longrightarrow> t_input a = t_input b \<Longrightarrow>
   matchToken E a token st = matchToken E b token st"
  by (simp add: matchToken_def split: option.splits pattern.splits)

lemma firstMatch_cong:
  "t_position a = t_position b \<Longrightarrow> t_input a = t_input b \<Longrightarrow>
   firstMatch E a ts st = firstMatch E b ts st"
proof (induction ts arbitrary: st)
  case Nil
  then show ?case by simp
next
  case (Cons t ts)
  then show ?case
    using matchToken_cong [of a b E t st]
    by (simp split: sum.splits option.splits prod.splits)
qed

lemma take_length_self: "m = take n xs \<Longrightarrow> m = take (length m) xs"
  by (cases "n \<le> length xs") (simp_all add: min_def)

lemma matchToken_prefix:
  assumes "matchToken E this token st = Inr (Some m, st')"
  shows "m = take (length m) (drop (t_position this) (t_input this))"
proof -
  from assms obtain n where "m = take n (drop (t_position this) (t_input this))"
    by (auto simp: matchToken_def Let_def
        split: option.splits pattern.splits prod.splits if_splits js_match.splits)
  then show ?thesis by (rule take_length_self)
qed

lemma firstMatch_prefix:
  "firstMatch E this ts st = Inr (Some (token, m), st') \<Longrightarrow>
   m = take (length m) (drop (t_position this) (t_input this))"
proof (induction ts arbitrary: st)
  case Nil
  then show ?case by simp
next
  case (Cons t ts)
  show ?case
  proof (cases "tk_skip t")
    case True
    with Cons show ?thesis by simp
  next
    case False
    show ?thesis
    proof (cases "matchToken E this t st")
      case (Inl e)
      with False Cons.prems show ?thesis by simp
    next
      case (Inr r)
      obtain mo st1 where r: "r = (mo, st1)" by (cases r)
      show ?thesis
      proof (cases mo)
        case None
        with False Inr r Cons show ?thesis by simp
      next
        case (Some m')
        show ?thesis
        proof (cases "m' = []")
          case True
          with False Inr r Some Cons show ?thesis by simp
        next
          case ne: False
          with False Inr r Some Cons.prems have "m' = m" by simp
          with Inr r Some matchToken_prefix [of E this t st m st1] show ?thesis by simp
        qed
      qed
    qed
  qed
qed

lemma firstMatch_in_range:
  assumes "firstMatch E this ts st = Inr (Some (token, m), st')"
  shows "t_position this + length m \<le> length (t_input this)"
    and "t_position this < length (t_input this)"
proof -
  have ne: "m \<noteq> []" using assms by (rule firstMatch_nonempty)
  have "length m = length (take (length m) (drop (t_position this) (t_input this)))"
    using firstMatch_prefix [OF assms] by simp
  then have le: "length m \<le> length (t_input this) - t_position this" by simp
  from ne have "0 < length m" by simp
  with le show "t_position this + length m \<le> length (t_input this)" by arith
  from le \<open>0 < length m\<close> show "t_position this < length (t_input this)" by arith
qed

lemma fold_advance_manual:
  "fold advance cps x = foldl manual_step x cps"
  by (induction cps arbitrary: x) (auto split: prod.splits)

text \<open>The state of the tokenizer at an offset, with the line and column of the count by hand.\<close>

definition state_at :: "'r token list \<Rightarrow> jsstring \<Rightarrow> nat \<Rightarrow> 'r tokenizer" where
  "state_at tokens input p =
     \<lparr>t_tokens = tokens, t_input = input, t_position = p,
      t_line = fst (manual_count (take p input)),
      t_column = snd (manual_count (take p input))\<rparr>"

lemma updatePosition_state_at:
  assumes m: "m = take (length m) (drop p input)" and ne: "m \<noteq> []"
    and ns: "\<not> splits_pair input p"
  shows "updatePosition (state_at tokens input p) m = state_at tokens input (p + length m)"
proof -
  have "take (p + length m) input = take p input @ take (length m) (drop p input)"
    by (simp add: take_add)
  with m have tk: "take (p + length m) input = take p input @ m" by simp
  from m ne have lt: "p < length input" by (cases "p < length input") auto
  have seam: "\<not> (take p input \<noteq> [] \<and> m \<noteq> [] \<and> is_high (last (take p input)) \<and> is_low (hd m))"
  proof
    assume a: "take p input \<noteq> [] \<and> m \<noteq> [] \<and> is_high (last (take p input)) \<and> is_low (hd m)"
    then have p0: "0 < p" by (cases p) auto
    with lt a have "last (take p input) = input ! (p - 1)"
      by (simp add: last_conv_nth min_def)
    moreover have "hd m = input ! p"
    proof -
      from m ne have "hd m = hd (drop p input)" by (metis hd_take length_greater_0_conv)
      with lt show ?thesis by (simp add: hd_drop_conv_nth)
    qed
    ultimately have "splits_pair input p"
      using a p0 lt by (simp add: splits_pair_def)
    with ns show False ..
  qed
  have "manual_count (take (p + length m) input) =
        foldl manual_step (manual_count (take p input)) (code_points m)"
    by (simp add: tk manual_count_def code_points_append [OF seam])
  then show ?thesis
    by (simp add: updatePosition_def state_at_def fold_advance_manual split: prod.splits)
qed

lemma consumes_loop:
  "consumes E tokens input st0 p st \<Longrightarrow>
   \<exists>acc. tokenize_loop E (Tokenizer tokens input) [] st0 =
          tokenize_loop E (state_at tokens input p) acc st"
proof (induction rule: consumes.induct)
  case start
  have "state_at tokens input 0 = Tokenizer tokens input"
    by (simp add: state_at_def Tokenizer_def manual_count_def)
  then show ?case by auto
next
  case (step p st token m st')
  then obtain acc where acc: "tokenize_loop E (Tokenizer tokens input) [] st0 =
          tokenize_loop E (state_at tokens input p) acc st" by blast
  have fm: "firstMatch E (state_at tokens input p) tokens st = Inr (Some (token, m), st')"
    using step.hyps(3)
      firstMatch_cong [of "state_at tokens input p" "(Tokenizer tokens input)\<lparr>t_position := p\<rparr>"
        E tokens st]
    by (simp add: state_at_def Tokenizer_def)
  have lt: "p < length input"
    using firstMatch_in_range(2) [OF fm] by (simp add: state_at_def)
  have pre: "m = take (length m) (drop p input)"
    using firstMatch_prefix [OF fm] by (simp add: state_at_def)
  have ne: "m \<noteq> []" using fm by (rule firstMatch_nonempty)
  have "tokenize_loop E (state_at tokens input p) acc st =
        tokenize_loop E (updatePosition (state_at tokens input p) m)
          (acc @ [Token3 (tk_pattern token) (tk_name token) False]) st'"
    using fm lt by (subst tokenize_loop.simps) (simp add: state_at_def)
  with acc show ?case
    by (auto simp: updatePosition_state_at [OF pre ne step.hyps(2)])
qed

text \<open>Concrete definitions for the runs below.\<close>

definition num :: "regexp token" where
  "num = Token (Rx digits) (Some (ascii ''NUM'')) False []"

definition nl :: "regexp token" where
  "nl = Token (Lit [newline]) (Some (ascii ''NL'')) False []"

definition lit_ab :: "regexp token" where
  "lit_ab = Token (Lit (ascii ''ab'')) (Some (ascii ''AB'')) False []"

definition plus_lit :: "regexp token" where
  "plus_lit = Token (Lit (ascii ''+'')) (Some (ascii ''PLUS'')) False []"

text \<open>
  The two code units of the character U+1F600, the regular expression of the whole
  character, and tokens for it and for each of its halves.
\<close>

definition hi_unit :: unit16 where
  "hi_unit = 0xD83D"

definition lo_unit :: unit16 where
  "lo_unit = 0xDE00"

definition grin :: "regexp token" where
  "grin = Token (Rx \<lparr>anchored = False, body = literal [hi_unit, lo_unit]\<rparr>)
            (Some (ascii ''GRIN'')) False []"

definition half :: "unit16 \<Rightarrow> regexp token" where
  "half u = Token (Rx (one_char u)) (Some (ascii ''HALF'')) False []"

text \<open>
  Claim C5, as amended. When the loop of \<^verbatim>\<open>tokenize\<close> reaches an offset \<open>p\<close> of the input, by
  matches of which none begins at an offset that splits a character, and at \<open>p\<close> the loop
  over the definitions tries every definition that is not skipped, none of them throws
  and none matches, \<^verbatim>\<open>tokenize\<close> throws a \<^verbatim>\<open>TokenizerError\<close>: its message is
  \<^verbatim>\<open>Unexpected character "u"\<close> with \<open>u\<close> the one UTF-16 code unit at \<open>p\<close>, and its line
  and column are the count by hand over the characters (code points) of the prefix
  consumed, the first \<open>p\<close> code units.
\<close>

theorem tokenize_error_position:
  assumes "consumes E tokens input st0 p st"
    and "p < length input"
    and "firstMatch E ((Tokenizer tokens input)\<lparr>t_position := p\<rparr>) tokens st = Inr (None, st')"
  shows "tokenize E (Tokenizer tokens input) st0 =
         Inl (TokenizerError (ascii ''Unexpected character '' @ [dq, input ! p, dq])
               (fst (manual_count (take p input))) (snd (manual_count (take p input))))"
proof -
  obtain acc where acc: "tokenize_loop E (Tokenizer tokens input) [] st0 =
          tokenize_loop E (state_at tokens input p) acc st"
    using consumes_loop [OF assms(1)] by blast
  have fm: "firstMatch E (state_at tokens input p) tokens st = Inr (None, st')"
    using assms(3)
      firstMatch_cong [of "state_at tokens input p" "(Tokenizer tokens input)\<lparr>t_position := p\<rparr>"
        E tokens st]
    by (simp add: state_at_def Tokenizer_def)
  have "tokenize_loop E (state_at tokens input p) acc st =
        Inl (TokenizerError (unexpected (input ! p))
               (fst (manual_count (take p input))) (snd (manual_count (take p input))))"
    using fm assms(2) by (subst tokenize_loop.simps) (simp add: state_at_def)
  with acc show ?thesis by (simp add: tokenize_def unexpected_def)
qed

theorem tokenize_error_position_witness:
  "tokenize js_engine
     (Tokenizer [num, nl, grin]
        (ascii ''1'' @ [newline, hi_unit, lo_unit] @ ascii ''2x4'')) () =
   Inl (TokenizerError (ascii ''Unexpected character '' @ [dq] @ ascii ''x'' @ [dq]) 2 3)"
proof -
  let ?inp = "ascii ''1'' @ [newline, hi_unit, lo_unit] @ ascii ''2x4''"
  let ?ts = "[num, nl, grin]"
  let ?T = "Tokenizer ?ts ?inp"
  have m0: "firstMatch js_engine (?T\<lparr>t_position := 0\<rparr>) ?ts () = Inr (Some (num, ascii ''1''), ())"
    by code_simp
  have m1: "firstMatch js_engine (?T\<lparr>t_position := 1\<rparr>) ?ts () = Inr (Some (nl, [newline]), ())"
    by code_simp
  have m2: "firstMatch js_engine (?T\<lparr>t_position := 2\<rparr>) ?ts () =
      Inr (Some (grin, [hi_unit, lo_unit]), ())"
    by code_simp
  have m4: "firstMatch js_engine (?T\<lparr>t_position := 4\<rparr>) ?ts () = Inr (Some (num, ascii ''2''), ())"
    by code_simp
  have m5: "firstMatch js_engine (?T\<lparr>t_position := 5\<rparr>) ?ts () = Inr (None, ())"
    by code_simp
  have s0: "\<not> splits_pair ?inp 0" and s1: "\<not> splits_pair ?inp 1"
    and s2: "\<not> splits_pair ?inp 2" and s4: "\<not> splits_pair ?inp 4"
    by code_simp+
  have c1: "consumes js_engine ?ts ?inp () 1 ()"
    using consumes.step [OF consumes.start s0 m0] by (simp add: ascii_def)
  have c2: "consumes js_engine ?ts ?inp () 2 ()"
    using consumes.step [OF c1 s1 m1] by (simp add: numeral_2_eq_2)
  have c4: "consumes js_engine ?ts ?inp () 4 ()"
    using consumes.step [OF c2 s2 m2] by simp
  have c5: "consumes js_engine ?ts ?inp () 5 ()"
    using consumes.step [OF c4 s4 m4] by (simp add: ascii_def)
  have mc: "manual_count (take 5 ?inp) = (2, 3)"
    by code_simp
  have lt: "5 < length ?inp" by (simp add: ascii_def)
  have ch: "?inp ! 5 = of_char CHR ''x''" by (simp add: ascii_def)
  show ?thesis
    using tokenize_error_position [OF c5 lt m5] mc ch by (simp add: ascii_def)
qed

text \<open>
  Claim C5 as stated fails in two ways. On the input of the one character U+1F600, which
  no definition matches, the message holds the first code unit of the character, a high
  surrogate alone, and not the character at the failing offset. When one match ends
  between the two halves of that character and the next begins there, the loop of
  \<^verbatim>\<open>updatePosition\<close> counts each half as a character: the column reported before \<^verbatim>\<open>x\<close> is 3,
  and the count by hand over the prefix consumed, one character, gives 2.
\<close>

theorem tokenize_error_not_as_claimed:
  "tokenize js_engine (Tokenizer [num] [hi_unit, lo_unit]) () =
     Inl (TokenizerError (ascii ''Unexpected character '' @ [dq, hi_unit, dq]) 1 1) \<and>
   code_points [hi_unit, lo_unit] = [[hi_unit, lo_unit]] \<and>
   tokenize js_engine (Tokenizer [half hi_unit, half lo_unit] ([hi_unit, lo_unit] @ ascii ''x'')) () =
     Inl (TokenizerError (ascii ''Unexpected character '' @ [dq] @ ascii ''x'' @ [dq]) 1 3) \<and>
   manual_count [hi_unit, lo_unit] = (1, 2)"
  by code_simp

text \<open>
  When a definition tried at the failing offset has a string pattern that does not
  compile, the loop over the definitions throws there: on the definitions
  \<^verbatim>\<open>[/\d+/, "+", /\d+/]\<close> and the input \<^verbatim>\<open>3x4\<close>, what leaves \<^verbatim>\<open>tokenize\<close> at \<^verbatim>\<open>x\<close> is the
  \<^verbatim>\<open>SyntaxError\<close> of compiling \<^verbatim>\<open>^+\<close>, before any \<^verbatim>\<open>TokenizerError\<close>.
\<close>

lemma tokenize_error_preempted:
  "tokenize js_engine (Tokenizer [num, plus_lit, num] (ascii ''3x4'')) () = Inl SyntaxError"
  by code_simp

lemma matchToken_error:
  "matchToken E this t st = Inl e \<Longrightarrow>
   e = SyntaxError \<and> (\<exists>s. tk_pattern t = Lit s \<and> regexp_new E (caret # s) = None)"
  by (auto simp: matchToken_def Let_def
      split: option.splits pattern.splits prod.splits if_splits js_match.splits)

lemma firstMatch_error:
  "firstMatch E this ts st = Inl e \<Longrightarrow>
   e = SyntaxError \<and>
   (\<exists>t\<in>set ts. \<not> tk_skip t \<and> (\<exists>s. tk_pattern t = Lit s \<and> regexp_new E (caret # s) = None))"
proof (induction ts arbitrary: st)
  case Nil
  then show ?case by simp
next
  case (Cons t ts)
  show ?case
  proof (cases "tk_skip t")
    case True
    with Cons show ?thesis by simp
  next
    case False
    show ?thesis
    proof (cases "matchToken E this t st")
      case (Inl e')
      with False Cons.prems have "e' = e" by simp
      with Inl matchToken_error [of E this t st e] False show ?thesis by auto
    next
      case (Inr r)
      with False Cons show ?thesis by (auto split: option.splits if_splits prod.splits)
    qed
  qed
qed

lemma updatePosition_fields:
  "t_tokens (updatePosition this m) = t_tokens this"
  "t_input (updatePosition this m) = t_input this"
  "t_position (updatePosition this m) = t_position this + length m"
  by (simp_all add: updatePosition_def split: prod.splits)

lemma tokenize_loop_outcome:
  assumes "t_position this \<le> length (t_input this)"
  shows "(\<exists>ts this' st'. tokenize_loop E this acc st = Inr (ts, this', st') \<and>
            length ts \<le> length acc + (length (t_input this) - t_position this) \<and>
            t_position this' = length (t_input this)) \<or>
         (\<exists>msg l c. tokenize_loop E this acc st = Inl (TokenizerError msg l c)) \<or>
         (tokenize_loop E this acc st = Inl SyntaxError \<and>
          (\<exists>t\<in>set (t_tokens this). \<not> tk_skip t \<and>
             (\<exists>s. tk_pattern t = Lit s \<and> regexp_new E (caret # s) = None)))"
  using assms
proof (induction E this acc st rule: tokenize_loop.induct)
  case (1 E this acc st)
  show ?case
  proof (cases "t_position this < length (t_input this)")
    case False
    with "1.prems" have "t_position this = length (t_input this)" by simp
    with False show ?thesis by (subst tokenize_loop.simps) simp
  next
    case lt: True
    show ?thesis
    proof (cases "firstMatch E this (t_tokens this) st")
      case (Inl e)
      from firstMatch_error [OF Inl] have e: "e = SyntaxError"
        and bad: "\<exists>t\<in>set (t_tokens this). \<not> tk_skip t \<and>
             (\<exists>s. tk_pattern t = Lit s \<and> regexp_new E (caret # s) = None)"
        by simp_all
      have "tokenize_loop E this acc st = Inl SyntaxError"
        using Inl e lt by (subst tokenize_loop.simps) simp
      with bad show ?thesis by blast
    next
      case (Inr r)
      obtain w st' where r: "r = (w, st')" by (cases r)
      show ?thesis
      proof (cases w)
        case None
        with Inr r lt show ?thesis by (subst tokenize_loop.simps) simp
      next
        case (Some tm)
        obtain token m where tm: "tm = (token, m)" by (cases tm)
        have fm: "firstMatch E this (t_tokens this) st = Inr (Some (token, m), st')"
          using Inr r Some tm by simp
        have ne: "m \<noteq> []" using fm by (rule firstMatch_nonempty)
        have rg: "t_position this + length m \<le> length (t_input this)"
          using fm by (rule firstMatch_in_range(1))
        let ?acc = "acc @ [Token3 (tk_pattern token) (tk_name token) False]"
        let ?next = "updatePosition this m"
        have step: "tokenize_loop E this acc st = tokenize_loop E ?next ?acc st'"
          using fm lt by (subst tokenize_loop.simps) simp
        have rg': "t_position ?next \<le> length (t_input ?next)"
          using rg by (simp add: updatePosition_fields)
        have IH: "(\<exists>ts this' st''. tokenize_loop E ?next ?acc st' = Inr (ts, this', st'') \<and>
            length ts \<le> length ?acc + (length (t_input ?next) - t_position ?next) \<and>
            t_position this' = length (t_input ?next)) \<or>
           (\<exists>msg l c. tokenize_loop E ?next ?acc st' = Inl (TokenizerError msg l c)) \<or>
           (tokenize_loop E ?next ?acc st' = Inl SyntaxError \<and>
            (\<exists>t\<in>set (t_tokens ?next). \<not> tk_skip t \<and>
               (\<exists>s. tk_pattern t = Lit s \<and> regexp_new E (caret # s) = None)))"
          using "1.IH" [OF lt Inr r [symmetric] Some tm [symmetric] rg'] .
        from ne have "0 < length m" by simp
        with rg lt have bound: "Suc (length acc) + (length (t_input this) - (t_position this + length m))
            \<le> length acc + (length (t_input this) - t_position this)" by arith
        from IH show ?thesis
        proof (elim disjE exE conjE)
          fix ts this' st''
          assume a: "tokenize_loop E ?next ?acc st' = Inr (ts, this', st'')"
            "length ts \<le> length ?acc + (length (t_input ?next) - t_position ?next)"
            "t_position this' = length (t_input ?next)"
          from a(2) bound have "length ts \<le> length acc + (length (t_input this) - t_position this)"
            by (simp add: updatePosition_fields)
          moreover from a(3) have "t_position this' = length (t_input this)"
            by (simp add: updatePosition_fields)
          ultimately show ?thesis using a(1) step by simp
        next
          fix msg l c
          assume "tokenize_loop E ?next ?acc st' = Inl (TokenizerError msg l c)"
          with step show ?thesis by simp
        next
          assume a: "tokenize_loop E ?next ?acc st' = Inl SyntaxError"
            "\<exists>t\<in>set (t_tokens ?next). \<not> tk_skip t \<and>
               (\<exists>s. tk_pattern t = Lit s \<and> regexp_new E (caret # s) = None)"
          from a(2) have "\<exists>t\<in>set (t_tokens this). \<not> tk_skip t \<and>
               (\<exists>s. tk_pattern t = Lit s \<and> regexp_new E (caret # s) = None)"
            by (simp add: updatePosition_fields)
          with a(1) step show ?thesis by simp
        qed
      qed
    qed
  qed
qed

text \<open>
  Claim C3. For every engine, every list of definitions and every input, \<^verbatim>\<open>tokenize\<close> ends
  (the termination proof of \<open>tokenize_loop\<close>, whose measure is the number of code units
  left), and in one of three ways: it returns an array of at most as many tokens as the
  input has code units, with the whole input consumed; or it throws a \<^verbatim>\<open>TokenizerError\<close>;
  or it throws the \<^verbatim>\<open>SyntaxError\<close> of \<^verbatim>\<open>new RegExp\<close>, and then a definition that is not
  skipped has a string pattern that does not compile. The definition that wins at an
  offset consumes a prefix of the rest of the input that is not empty. The third way is
  where the code leaves the claim: on the string pattern \<^verbatim>\<open>"+"\<close> and the input \<^verbatim>\<open>+\<close> the
  tokenizer compiles \<^verbatim>\<open>^+\<close>, and \<^verbatim>\<open>tokenize\<close> neither returns an array nor throws a
  \<^verbatim>\<open>TokenizerError\<close>.
\<close>

theorem tokenize_outcome:
  "((\<exists>ts this' st'. tokenize E (Tokenizer tokens input) st = Inr (ts, this', st') \<and>
        length ts \<le> length input \<and> t_position this' = length input) \<or>
    (\<exists>msg l c. tokenize E (Tokenizer tokens input) st = Inl (TokenizerError msg l c)) \<or>
    (tokenize E (Tokenizer tokens input) st = Inl SyntaxError \<and>
     (\<exists>t\<in>set tokens. \<not> tk_skip t \<and>
        (\<exists>s. tk_pattern t = Lit s \<and> regexp_new E (caret # s) = None)))) \<and>
   (\<forall>this token m st1 st2.
      firstMatch E this tokens st1 = Inr (Some (token, m), st2) \<longrightarrow>
      m \<noteq> [] \<and> m = take (length m) (drop (t_position this) (t_input this))) \<and>
   tokenize js_engine (Tokenizer [plus_lit] (ascii ''+'')) () = Inl SyntaxError"
proof (intro conjI)
  show "(\<exists>ts this' st'. tokenize E (Tokenizer tokens input) st = Inr (ts, this', st') \<and>
        length ts \<le> length input \<and> t_position this' = length input) \<or>
    (\<exists>msg l c. tokenize E (Tokenizer tokens input) st = Inl (TokenizerError msg l c)) \<or>
    (tokenize E (Tokenizer tokens input) st = Inl SyntaxError \<and>
     (\<exists>t\<in>set tokens. \<not> tk_skip t \<and>
        (\<exists>s. tk_pattern t = Lit s \<and> regexp_new E (caret # s) = None)))"
    using tokenize_loop_outcome [of "Tokenizer tokens input" E "[]" st]
    by (simp add: tokenize_def Tokenizer_def)
next
  show "\<forall>this token m st1 st2.
      firstMatch E this tokens st1 = Inr (Some (token, m), st2) \<longrightarrow>
      m \<noteq> [] \<and> m = take (length m) (drop (t_position this) (t_input this))"
  proof (intro allI impI conjI)
    fix this token m st1 st2
    assume fm: "firstMatch E this tokens st1 = Inr (Some (token, m), st2)"
    from fm show "m \<noteq> []" by (rule firstMatch_nonempty)
    from fm show "m = take (length m) (drop (t_position this) (t_input this))"
      by (rule firstMatch_prefix)
  qed
next
  show "tokenize js_engine (Tokenizer [plus_lit] (ascii ''+'')) () = Inl SyntaxError"
    by code_simp
qed

theorem tokenize_outcome_witness:
  "firstMatch js_engine (Tokenizer [lit_ab] (ascii ''abab'')) [lit_ab] () =
     Inr (Some (lit_ab, ascii ''ab''), ()) \<and>
   ascii ''ab'' \<noteq> [] \<and>
   ascii ''ab'' = take (length (ascii ''ab'')) (drop 0 (ascii ''abab'')) \<and>
   (\<exists>ts this' st'.
      tokenize js_engine (Tokenizer [lit_ab] (ascii ''abab'')) () = Inr (ts, this', st') \<and>
      length ts \<le> length (ascii ''abab'') \<and> t_position this' = length (ascii ''abab''))"
proof -
  let ?T = "Tokenizer [lit_ab] (ascii ''abab'')"
  have fm: "firstMatch js_engine ?T [lit_ab] () = Inr (Some (lit_ab, ascii ''ab''), ())"
    by code_simp
  have run: "tokenize js_engine ?T () =
     Inr ([Token3 (Lit (ascii ''ab'')) (Some (ascii ''AB'')) False,
           Token3 (Lit (ascii ''ab'')) (Some (ascii ''AB'')) False],
          \<lparr>t_tokens = [lit_ab], t_input = ascii ''abab'', t_position = 4, t_line = 1,
             t_column = 5\<rparr>, ())"
    by code_simp
  have all: "\<forall>this token m st1 st2.
      firstMatch js_engine this [lit_ab] st1 = Inr (Some (token, m), st2) \<longrightarrow>
      m \<noteq> [] \<and> m = take (length m) (drop (t_position this) (t_input this))"
    and out: "(\<exists>ts this' st'. tokenize js_engine ?T () = Inr (ts, this', st') \<and>
        length ts \<le> length (ascii ''abab'') \<and> t_position this' = length (ascii ''abab'')) \<or>
      (\<exists>msg l c. tokenize js_engine ?T () = Inl (TokenizerError msg l c)) \<or>
      (tokenize js_engine ?T () = Inl SyntaxError \<and>
       (\<exists>t\<in>set [lit_ab]. \<not> tk_skip t \<and>
          (\<exists>s. tk_pattern t = Lit s \<and> regexp_new js_engine (caret # s) = None)))"
    using tokenize_outcome [of js_engine "[lit_ab]" "ascii ''abab''" "()"] by (rule conjunct2 [THEN conjunct1], rule conjunct1)
  from all fm have pre: "ascii ''ab'' \<noteq> [] \<and>
      ascii ''ab'' = take (length (ascii ''ab'')) (drop (t_position ?T) (t_input ?T))"
    by blast
  have p0: "t_position ?T = 0" and inp: "t_input ?T = ascii ''abab''"
    by (simp_all add: Tokenizer_def)
  from out run have ok: "\<exists>ts this' st'. tokenize js_engine ?T () = Inr (ts, this', st') \<and>
        length ts \<le> length (ascii ''abab'') \<and> t_position this' = length (ascii ''abab'')"
    by auto
  from fm pre ok show ?thesis unfolding p0 inp by blast
qed

text \<open>Every token that \<^verbatim>\<open>tokenize\<close> returns has the empty string as its value.\<close>

lemma tokenize_loop_values:
  "\<forall>t\<in>set acc. tk_value t = [] \<Longrightarrow> tokenize_loop E this acc st = Inr (ts, this', st') \<Longrightarrow>
   \<forall>t\<in>set ts. tk_value t = []"
proof (induction E this acc st rule: tokenize_loop.induct)
  case (1 E this acc st)
  show ?case
  proof (cases "t_position this < length (t_input this)")
    case False
    with "1.prems" show ?thesis by (simp add: tokenize_loop.simps [of E this acc st])
  next
    case True
    with "1.prems"(2) obtain token m st1 where
      fm: "firstMatch E this (t_tokens this) st = Inr (Some (token, m), st1)"
      and run: "tokenize_loop E (updatePosition this m)
                  (acc @ [Token3 (tk_pattern token) (tk_name token) False]) st1 =
                Inr (ts, this', st')"
      by (simp add: tokenize_loop.simps [of E this acc st]
          split: sum.splits option.splits prod.splits)
    have "\<forall>t\<in>set (acc @ [Token3 (tk_pattern token) (tk_name token) False]). tk_value t = []"
      using "1.prems"(1) by (simp add: Token3_def Token_def)
    from "1.IH" [OF True fm refl refl refl this run] show ?thesis .
  qed
qed

lemma tokenize_values_empty:
  "tokenize E this st = Inr (ts, this', st') \<Longrightarrow> \<forall>t\<in>set ts. tk_value t = []"
  using tokenize_loop_values [of "[]" E this st ts this' st'] by (simp add: tokenize_def)

text \<open>
  Claim C1. The token that \<^verbatim>\<open>tokenize\<close> pushes is built with three arguments, so its
  \<^verbatim>\<open>value\<close> is the default, the empty string, and not the substring matched. On the
  definition \<^verbatim>\<open>/\d+/\<close> and the input \<^verbatim>\<open>34\<close>, \<^verbatim>\<open>matchToken\<close> returns \<^verbatim>\<open>34\<close> and the token
  returned has the value \<^verbatim>\<open>""\<close>: the values of the tokens do not give the input back.
\<close>

theorem tokenize_value_dropped:
  "matchToken js_engine (Tokenizer [num] (ascii ''34'')) num () = Inr (Some (ascii ''34''), ()) \<and>
   tokenize js_engine (Tokenizer [num] (ascii ''34'')) () =
     Inr ([\<lparr>tk_pattern = Rx digits, tk_name = Some (ascii ''NUM''), tk_skip = False,
            tk_value = []\<rparr>],
          \<lparr>t_tokens = [num], t_input = ascii ''34'', t_position = 2, t_line = 1, t_column = 3\<rparr>,
          ())"
  by code_simp

section \<open>Grammar: the rules by precedence\<close>








text \<open>A store with one array of rules, at reference 0, and the grammar that holds it.\<close>

definition arrays_of :: "'r GrammarRule list \<Rightarrow> 'r arrays" where
  "arrays_of rs = \<lparr>arr = (\<lambda>_. [])(0 := rs), arr_next = 1\<rparr>"

definition grammar0 :: Grammar where
  "grammar0 = \<lparr>rules = 0\<rparr>"





section \<open>Nodes, parents and the tree of a parse\<close>

text \<open>
  An empty heap, and the error of a result, if any (a heap is a function and has no
  executable equality, so a run is compared through its error or through a \<open>case\<close>).
\<close>

definition blank :: "'r Node" where
  "blank = \<lparr>n_value = Token (Lit []) None False [], n_token = [], n_children = 0,
            n_line = 0, n_position = 0, n_parent = None\<rparr>"

definition empty_heap :: "'r heap" where
  "empty_heap = \<lparr>cells = (\<lambda>_. blank), kids = (\<lambda>_. []), fresh = 0, fresh_kids = 0\<rparr>"

definition error_of :: "error + 'a \<Rightarrow> error option" where
  "error_of r = (case r of Inl e \<Rightarrow> Some e | Inr _ \<Rightarrow> None)"

lemma appendChild_parent:
  "getParent (appendChild h this v tk l p) (fresh h) = Some this \<and>
   last (children_of (appendChild h this v tk l p) this) = fresh h"
  by (simp add: appendChild_def Node_lit_def array_lit_def Node_new_def push_child_def
      getParent_def children_of_def)

text \<open>
  Claim C9. \<^verbatim>\<open>appendChild\<close> sets the parent of the node it attaches: \<^verbatim>\<open>getParent\<close> of the
  new last child is the receiver. \<^verbatim>\<open>addNode\<close> does not: it pushes the node on the children
  of the parent and leaves the node's \<^verbatim>\<open>parent\<close> as it was. For a tree on a new root and a
  new node added under the root, the node is the child of the root and \<^verbatim>\<open>getParent\<close> of the
  node is still \<^verbatim>\<open>null\<close>.
\<close>

theorem addNode_parent_unset:
  "(\<forall>(h :: regexp heap) this v tk l p.
      getParent (appendChild h this v tk l p) (last (children_of (appendChild h this v tk l p) this))
        = Some this) \<and>
   (let tok = Token (Lit (ascii ''x'')) None False [];
        (h1, r) = Node_lit (empty_heap :: regexp heap) tok (ascii ''root'') [] 0 0;
        (h2, n) = Node_lit h1 tok (ascii ''node'') [] 0 0
    in case AstTree_new 10 h2 r of
         Inl e \<Rightarrow> False
       | Inr tree \<Rightarrow>
           (case addNode h2 tree n r of
              (h3, tree') \<Rightarrow> children_of h3 r = [n] \<and> getParent h3 n = None))"
proof
  show "\<forall>(h :: regexp heap) this v tk l p.
      getParent (appendChild h this v tk l p) (last (children_of (appendChild h this v tk l p) this))
        = Some this"
    by (simp add: appendChild_parent)
next
  show "(let tok = Token (Lit (ascii ''x'')) None False [];
        (h1, r) = Node_lit (empty_heap :: regexp heap) tok (ascii ''root'') [] 0 0;
        (h2, n) = Node_lit h1 tok (ascii ''node'') [] 0 0
    in case AstTree_new 10 h2 r of
         Inl e \<Rightarrow> False
       | Inr tree \<Rightarrow>
           (case addNode h2 tree n r of
              (h3, tree') \<Rightarrow> children_of h3 r = [n] \<and> getParent h3 n = None))"
    by code_simp
qed

section \<open>Parser: the tree of a rule and the errors\<close>

text \<open>Definitions for the concrete runs of the parser.\<close>

definition plus_rx :: "regexp token" where
  "plus_rx = Token (Rx (one_char (of_char CHR ''+''))) (Some (ascii ''PLUS'')) False []"

definition unnamed :: "char \<Rightarrow> regexp token" where
  "unnamed c = Token (Rx (one_char (of_char c))) None False []"

definition named_empty :: "char \<Rightarrow> regexp token" where
  "named_empty c = Token (Rx (one_char (of_char c))) (Some []) False []"

definition named :: "char \<Rightarrow> string \<Rightarrow> regexp token" where
  "named c nm = Token (Rx (one_char (of_char c))) (Some (ascii nm)) False []"

text \<open>A token of the stream as \<^verbatim>\<open>new Token(pattern, name, false, value)\<close> makes it.\<close>

definition emitted :: "'r token \<Rightarrow> string \<Rightarrow> 'r token" where
  "emitted d v = Token (tk_pattern d) (tk_name d) False (ascii v)"

text \<open>
  The definitions \<open>defs\<close> accept, each in its turn, the first tokens of the stream \<open>ts\<close>:
  every call of \<open>isMatch\<close> answers \<^verbatim>\<open>true\<close>, and the result is the state of the regular
  expressions after the last call.
\<close>

fun accepts :: "('r, 's) engine \<Rightarrow> 'r token list \<Rightarrow> 'r token list \<Rightarrow> 's \<Rightarrow> 's option" where
  "accepts E [] ts st = Some st"
| "accepts E (d # ds) [] st = None"
| "accepts E (d # ds) (t # ts) st =
     (case isMatch E d t st of
        (True, st') \<Rightarrow> accepts E ds ts st'
      | (False, st') \<Rightarrow> None)"

lemma Parser_new_fields:
  "Parser_new E A g input st = Inr (this, st') \<Longrightarrow> p_grammar this = g \<and> p_position this = 0"
  by (auto simp: Parser_new_def split: sum.splits prod.splits)

text \<open>
  The node that \<^verbatim>\<open>matchRule\<close> appends for the token at index \<open>i\<close> of the stream, on the
  array \<open>a\<close>.
\<close>

definition child_node :: "'r token list \<Rightarrow> nat \<Rightarrow> nat \<Rightarrow> nat \<Rightarrow> 'r Node" where
  "child_node ts rootNode i a =
     \<lparr>n_value = ts ! i, n_token = or_empty (tk_name (ts ! i)), n_children = a,
      n_line = 0, n_position = Suc i, n_parent = Some rootNode\<rparr>"

lemma appendChild_cells:
  "this \<noteq> fresh h \<Longrightarrow> n_children (cells h this) \<noteq> fresh_kids h \<Longrightarrow>
   appendChild h this v tk l p =
     h\<lparr>cells := (cells h)
          (fresh h := \<lparr>n_value = v, n_token = tk, n_children = fresh_kids h, n_line = l,
                        n_position = p, n_parent = Some this\<rparr>),
       kids := (kids h)
          (fresh_kids h := [],
           n_children (cells h this) := kids h (n_children (cells h this)) @ [fresh h]),
       fresh := Suc (fresh h),
       fresh_kids := Suc (fresh_kids h)\<rparr>"
  by (simp add: appendChild_def Node_lit_def array_lit_def Node_new_def push_child_def)

lemma matchToken_hit:
  "p_position this < length (p_tokens this) \<Longrightarrow>
   isMatch E d (p_tokens this ! p_position this) st = (True, st') \<Longrightarrow>
   Parser_matchToken E this d st =
     (Some (p_tokens this ! p_position this), this\<lparr>p_position := Suc (p_position this)\<rparr>, st')"
  by (simp add: Parser_matchToken_def)


lemma accepts_Cons:
  assumes "accepts E (d # ds) (drop i ts) st = Some st'"
  shows "i < length ts \<and>
         (\<exists>st1. isMatch E d (ts ! i) st = (True, st1) \<and>
                accepts E ds (drop (Suc i) ts) st1 = Some st')"
proof -
  have lt: "i < length ts"
  proof (rule ccontr)
    assume "\<not> i < length ts"
    then have "drop i ts = []" by simp
    with assms show False by simp
  qed
  then have dr: "drop i ts = ts ! i # drop (Suc i) ts"
    by (simp add: Cons_nth_drop_Suc)
  obtain b st1 where m: "isMatch E d (ts ! i) st = (b, st1)"
    by (cases "isMatch E d (ts ! i) st")
  from assms dr m have "b" "accepts E ds (drop (Suc i) ts) st1 = Some st'"
    by (auto split: bool.splits)
  with lt m show ?thesis by auto
qed

lemma matchRule_loop_ok:
  assumes "rootNode < fresh h"
    and "n_children (cells h rootNode) < fresh_kids h"
    and "accepts E defs (drop (p_position this) (p_tokens this)) st = Some st'"
  shows "\<exists>h'. matchRule_loop E this h rootNode defs st =
                Inr (this\<lparr>p_position := p_position this + length defs\<rparr>, h', st') \<and>
              fresh h' = fresh h + length defs \<and>
              fresh_kids h' = fresh_kids h + length defs \<and>
              children_of h' rootNode =
                children_of h rootNode @ [fresh h..<fresh h + length defs] \<and>
              (\<forall>j<length defs.
                  cells h' (fresh h + j) =
                    child_node (p_tokens this) rootNode (p_position this + j) (fresh_kids h + j) \<and>
                  kids h' (fresh_kids h + j) = []) \<and>
              (\<forall>a<fresh h. cells h' a = cells h a) \<and>
              (\<forall>b<fresh_kids h. b \<noteq> n_children (cells h rootNode) \<longrightarrow> kids h' b = kids h b)"
  using assms
proof (induction defs arbitrary: this h st)
  case Nil
  then show ?case by simp
next
  case (Cons d ds)
  let ?ts = "p_tokens this" and ?i = "p_position this"
  let ?A = "n_children (cells h rootNode)"
  from accepts_Cons [OF Cons.prems(3)] obtain st1 where lt: "?i < length ?ts"
    and hit: "isMatch E d (?ts ! ?i) st = (True, st1)"
    and rest: "accepts E ds (drop (Suc ?i) ?ts) st1 = Some st'"
    by blast
  let ?this1 = "this\<lparr>p_position := Suc ?i\<rparr>"
  let ?h1 = "appendChild h rootNode (?ts ! ?i) (or_empty (tk_name (?ts ! ?i))) 0 (Suc ?i)"
  have ne: "rootNode \<noteq> fresh h" using Cons.prems(1) by simp
  have nea: "?A \<noteq> fresh_kids h" using Cons.prems(2) by simp
  have h1: "?h1 = h\<lparr>cells := (cells h)(fresh h := child_node ?ts rootNode ?i (fresh_kids h)),
       kids := (kids h)(fresh_kids h := [], ?A := kids h ?A @ [fresh h]),
       fresh := Suc (fresh h),
       fresh_kids := Suc (fresh_kids h)\<rparr>"
    using appendChild_cells [OF ne nea] by (simp add: child_node_def)
  have fr1: "fresh ?h1 = Suc (fresh h)" by (simp add: h1)
  have fk1: "fresh_kids ?h1 = Suc (fresh_kids h)" by (simp add: h1)
  have rootcell: "cells ?h1 rootNode = cells h rootNode" using ne by (simp add: h1)
  have root1: "rootNode < fresh ?h1" using Cons.prems(1) by (simp add: fr1)
  have arr1: "n_children (cells ?h1 rootNode) < fresh_kids ?h1"
    using Cons.prems(2) by (simp add: rootcell fk1)
  have rest1: "accepts E ds (drop (p_position ?this1) (p_tokens ?this1)) st1 = Some st'"
    using rest by simp
  from Cons.IH [OF root1 arr1 rest1] obtain h' where
    run: "matchRule_loop E ?this1 ?h1 rootNode ds st1 =
            Inr (?this1\<lparr>p_position := p_position ?this1 + length ds\<rparr>, h', st')"
    and fr: "fresh h' = fresh ?h1 + length ds"
    and fk: "fresh_kids h' = fresh_kids ?h1 + length ds"
    and ch: "children_of h' rootNode = children_of ?h1 rootNode @ [fresh ?h1..<fresh ?h1 + length ds]"
    and cs: "\<forall>j<length ds.
                cells h' (fresh ?h1 + j) =
                  child_node (p_tokens ?this1) rootNode (p_position ?this1 + j) (fresh_kids ?h1 + j) \<and>
                kids h' (fresh_kids ?h1 + j) = []"
    and frame: "\<forall>a<fresh ?h1. cells h' a = cells ?h1 a"
    and kframe: "\<forall>b<fresh_kids ?h1. b \<noteq> n_children (cells ?h1 rootNode) \<longrightarrow>
                   kids h' b = kids ?h1 b"
    by blast
  have step: "matchRule_loop E this h rootNode (d # ds) st =
                matchRule_loop E ?this1 ?h1 rootNode ds st1"
    using matchToken_hit [OF lt hit] by simp
  have c1: "matchRule_loop E this h rootNode (d # ds) st =
             Inr (this\<lparr>p_position := ?i + length (d # ds)\<rparr>, h', st')"
    using step run by simp
  have c2: "fresh h' = fresh h + length (d # ds)"
    using fr fr1 by simp
  have c3: "fresh_kids h' = fresh_kids h + length (d # ds)"
    using fk fk1 by simp
  have ch1: "children_of ?h1 rootNode = children_of h rootNode @ [fresh h]"
    using ne by (simp add: h1 children_of_def)
  have c4: "children_of h' rootNode =
             children_of h rootNode @ [fresh h..<fresh h + length (d # ds)]"
    using ch ch1 fr1 by (simp add: upt_conv_Cons del: upt_Suc)
  have new0: "cells h' (fresh h) = child_node ?ts rootNode ?i (fresh_kids h)"
  proof -
    have "cells h' (fresh h) = cells ?h1 (fresh h)"
      using frame by (simp add: fr1)
    also have "\<dots> = child_node ?ts rootNode ?i (fresh_kids h)"
      by (simp add: h1)
    finally show ?thesis .
  qed
  have kid0: "kids h' (fresh_kids h) = []"
  proof -
    have "kids h' (fresh_kids h) = kids ?h1 (fresh_kids h)"
      using kframe nea by (simp add: fk1 rootcell)
    also have "\<dots> = []"
      using nea by (simp add: h1)
    finally show ?thesis .
  qed
  have c5: "\<forall>j<length (d # ds).
      cells h' (fresh h + j) = child_node ?ts rootNode (?i + j) (fresh_kids h + j) \<and>
      kids h' (fresh_kids h + j) = []"
  proof (intro allI impI)
    fix j assume j: "j < length (d # ds)"
    show "cells h' (fresh h + j) = child_node ?ts rootNode (?i + j) (fresh_kids h + j) \<and>
          kids h' (fresh_kids h + j) = []"
    proof (cases j)
      case 0
      with new0 kid0 show ?thesis by simp
    next
      case (Suc j')
      with j have "j' < length ds" by simp
      with cs have "cells h' (fresh ?h1 + j') =
                      child_node ?ts rootNode (Suc ?i + j') (fresh_kids ?h1 + j') \<and>
                    kids h' (fresh_kids ?h1 + j') = []"
        by simp
      with Suc fr1 fk1 show ?thesis by simp
    qed
  qed
  have c6: "\<forall>a<fresh h. cells h' a = cells h a"
  proof (intro allI impI)
    fix a assume a: "a < fresh h"
    then have "cells h' a = cells ?h1 a" using frame by (simp add: fr1)
    also have "\<dots> = cells h a" using a by (simp add: h1)
    finally show "cells h' a = cells h a" .
  qed
  have c7: "\<forall>b<fresh_kids h. b \<noteq> ?A \<longrightarrow> kids h' b = kids h b"
  proof (intro allI impI)
    fix b assume b: "b < fresh_kids h" "b \<noteq> ?A"
    then have "kids h' b = kids ?h1 b" using kframe by (simp add: fk1 rootcell)
    also have "\<dots> = kids h b" using b by (simp add: h1)
    finally show "kids h' b = kids h b" .
  qed
  from c1 c2 c3 c4 c5 c6 c7 show ?case by blast
qed


lemma seq_all_leaves:
  "\<forall>c\<in>set cs. children_of h c = [] \<Longrightarrow>
   seq_all (map (traversePreOrder (Suc k) h) cs) = Inr cs"
  by (induction cs) simp_all

lemma preorder_two_levels:
  assumes "\<forall>c\<in>set (children_of h r). children_of h c = []"
  shows "traversePreOrder (Suc (Suc k)) h r = Inr (r # children_of h r)"
  using seq_all_leaves [OF assms, of k] by simp

lemma AstTree_new_ok:
  "traversePreOrder k h r = Inr ns \<Longrightarrow> \<exists>t. AstTree_new k h r = Inr t \<and> root t = r"
  by (simp add: AstTree_new_def findLeaves_def getNodesPreOrder_def)

text \<open>The root node of \<^verbatim>\<open>matchRule\<close>, on a new empty array.\<close>

lemma matchRule_root:
  "\<exists>h1. Node_lit h (Token (Lit nm) (Some nm) False []) nm [] 0 0 = (h1, fresh h) \<and>
         fresh h1 = Suc (fresh h) \<and> fresh_kids h1 = Suc (fresh_kids h) \<and>
         n_children (cells h1 (fresh h)) = fresh_kids h \<and>
         kids h1 (fresh_kids h) = [] \<and>
         n_token (cells h1 (fresh h)) = nm"
  by (simp add: Node_lit_def array_lit_def Node_new_def)

lemma matchRule_ok:
  assumes "accepts E (r_tokens rule) (p_tokens this) st = Some st'"
    and "p_position this = 0"
  shows "\<exists>h'. matchRule E this h rule st =
            Inr (fresh h, this\<lparr>p_position := length (r_tokens rule)\<rparr>, h', st') \<and>
          children_of h' (fresh h) = [Suc (fresh h)..<Suc (fresh h) + length (r_tokens rule)] \<and>
          (\<forall>j<length (r_tokens rule).
              cells h' (Suc (fresh h) + j) =
                child_node (p_tokens this) (fresh h) j (Suc (fresh_kids h) + j) \<and>
              kids h' (Suc (fresh_kids h) + j) = []) \<and>
          n_token (cells h' (fresh h)) = or_empty (r_name rule)"
proof -
  let ?nm = "or_empty (r_name rule)"
  from matchRule_root [of h ?nm] obtain h1 where
    nn: "Node_lit h (Token (Lit ?nm) (Some ?nm) False []) ?nm [] 0 0 = (h1, fresh h)"
    and fr1: "fresh h1 = Suc (fresh h)"
    and fk1: "fresh_kids h1 = Suc (fresh_kids h)"
    and ar1: "n_children (cells h1 (fresh h)) = fresh_kids h"
    and ks1: "kids h1 (fresh_kids h) = []"
    and tk1: "n_token (cells h1 (fresh h)) = ?nm"
    by blast
  have lt: "fresh h < fresh h1" by (simp add: fr1)
  have lta: "n_children (cells h1 (fresh h)) < fresh_kids h1" by (simp add: ar1 fk1)
  have ch1: "children_of h1 (fresh h) = []" by (simp add: children_of_def ar1 ks1)
  have ok: "accepts E (r_tokens rule) (drop (p_position this) (p_tokens this)) st = Some st'"
    using assms by simp
  from matchRule_loop_ok [OF lt lta ok] obtain h' where
    run: "matchRule_loop E this h1 (fresh h) (r_tokens rule) st =
            Inr (this\<lparr>p_position := p_position this + length (r_tokens rule)\<rparr>, h', st')"
    and ch: "children_of h' (fresh h) =
               children_of h1 (fresh h) @ [fresh h1..<fresh h1 + length (r_tokens rule)]"
    and cs: "\<forall>j<length (r_tokens rule).
                cells h' (fresh h1 + j) =
                  child_node (p_tokens this) (fresh h) (p_position this + j) (fresh_kids h1 + j) \<and>
                kids h' (fresh_kids h1 + j) = []"
    and frame: "\<forall>a<fresh h1. cells h' a = cells h1 a"
    by blast
  have "matchRule E this h rule st =
          Inr (fresh h, this\<lparr>p_position := length (r_tokens rule)\<rparr>, h', st')"
    using run nn assms(2) by (simp add: matchRule_def Let_def)
  moreover have "children_of h' (fresh h) =
      [Suc (fresh h)..<Suc (fresh h) + length (r_tokens rule)]"
    using ch ch1 fr1 by (simp del: upt_Suc)
  moreover have "\<forall>j<length (r_tokens rule).
      cells h' (Suc (fresh h) + j) =
        child_node (p_tokens this) (fresh h) j (Suc (fresh_kids h) + j) \<and>
      kids h' (Suc (fresh_kids h) + j) = []"
    using cs fr1 fk1 assms(2) by simp
  moreover have "n_token (cells h' (fresh h)) = ?nm"
    using frame tk1 by (simp add: fr1)
  ultimately show ?thesis by blast
qed

text \<open>
  The tree of a rule. When the parser is at the start of its token stream, the definitions
  of the root rule accept the tokens of the stream, each the token at its index, and there
  are as many of them, and the stack has room for the two nested calls of the traversal,
  \<^verbatim>\<open>parse\<close> returns. The tree has \<open>1 + rule.tokens.length\<close> nodes, all different: the root,
  tagged with the name of the rule, and its children, one for each token of the stream in
  the order of the stream. Each child has the root as parent and no children of its own,
  so the tree is two levels deep.
\<close>

lemma parse_flat_tree_of_stream:
  assumes p0: "p_position this = 0"
    and rs: "arr A (rules (p_grammar this)) = rootRule # others"
    and ok: "accepts E (r_tokens rootRule) (p_tokens this) st = Some st'"
    and len: "length (p_tokens this) = length (r_tokens rootRule)"
    and k: "2 \<le> k"
  shows "\<exists>tree this' h'.
           parse E A k this h st = Inr (tree, this', h', st') \<and>
           getNodesPreOrder k h' tree = Inr (root tree # children_of h' (root tree)) \<and>
           length (root tree # children_of h' (root tree)) = 1 + length (r_tokens rootRule) \<and>
           distinct (root tree # children_of h' (root tree)) \<and>
           map (\<lambda>c. n_value (cells h' c)) (children_of h' (root tree)) = p_tokens this \<and>
           (\<forall>c\<in>set (children_of h' (root tree)).
               children_of h' c = [] \<and> getParent h' c = Some (root tree)) \<and>
           n_token (cells h' (root tree)) = or_empty (r_name rootRule)"
proof -
  let ?n = "length (r_tokens rootRule)" and ?r = "fresh h"
  from matchRule_ok [OF ok p0, of h] obtain h' where
    run: "matchRule E this h rootRule st = Inr (?r, this\<lparr>p_position := ?n\<rparr>, h', st')"
    and ch: "children_of h' ?r = [Suc ?r..<Suc ?r + ?n]"
    and cs: "\<forall>j<?n. cells h' (Suc ?r + j) =
                child_node (p_tokens this) ?r j (Suc (fresh_kids h) + j) \<and>
              kids h' (Suc (fresh_kids h) + j) = []"
    and tk: "n_token (cells h' ?r) = or_empty (r_name rootRule)"
    by blast
  have child: "children_of h' c = [] \<and> getParent h' c = Some ?r"
    if "c \<in> set (children_of h' ?r)" for c
  proof -
    from that ch obtain j where "c = Suc ?r + j" "j < ?n"
      by (auto simp: nat_le_iff_add dest!: less_imp_Suc_add)
    with cs show ?thesis
      by (simp add: children_of_def getParent_def child_node_def)
  qed
  from k obtain k' where k': "k = Suc (Suc k')"
    by (auto simp: numeral_2_eq_2 dest: Suc_le_D)
  have pre: "traversePreOrder k h' ?r = Inr (?r # children_of h' ?r)"
    unfolding k' using child by (intro preorder_two_levels) blast
  from AstTree_new_ok [OF pre] obtain tree where
    tree: "AstTree_new k h' ?r = Inr tree" and root: "root tree = ?r"
    by blast
  have c1: "parse E A k this h st = Inr (tree, this\<lparr>p_position := ?n\<rparr>, h', st')"
    using rs run tree by (simp add: parse_def)
  have c2: "getNodesPreOrder k h' tree = Inr (root tree # children_of h' (root tree))"
    using pre root by (simp add: getNodesPreOrder_def)
  have c3: "length (root tree # children_of h' (root tree)) = 1 + ?n"
    using ch root by (simp del: upt_Suc)
  have c4: "distinct (root tree # children_of h' (root tree))"
    using ch root by (simp del: upt_Suc)
  have c5: "map (\<lambda>c. n_value (cells h' c)) (children_of h' (root tree)) = p_tokens this"
  proof (rule nth_equalityI)
    show "length (map (\<lambda>c. n_value (cells h' c)) (children_of h' (root tree))) =
          length (p_tokens this)"
      using ch root len by (simp del: upt_Suc)
  next
    fix j assume "j < length (map (\<lambda>c. n_value (cells h' c)) (children_of h' (root tree)))"
    then have j: "j < ?n" using ch root by (simp del: upt_Suc)
    then have "children_of h' (root tree) ! j = Suc ?r + j"
      using ch root by (simp del: upt_Suc)
    with j cs show "map (\<lambda>c. n_value (cells h' c)) (children_of h' (root tree)) ! j =
                    p_tokens this ! j"
      using ch root by (simp add: child_node_def del: upt_Suc)
  qed
  have c6: "\<forall>c\<in>set (children_of h' (root tree)).
               children_of h' c = [] \<and> getParent h' c = Some (root tree)"
    using child root by simp
  have c7: "n_token (cells h' (root tree)) = or_empty (r_name rootRule)"
    using tk root by simp
  from c1 c2 c3 c4 c5 c6 c7 show ?thesis by blast
qed













text \<open>
  Claim C2. For the grammar of one rule \<^verbatim>\<open>[/\d+/ "NUM", "+" "PLUS", /\d+/ "NUM"]\<close> and the
  input \<^verbatim>\<open>3+4\<close>, the constructor of the parser does not return: after the token of \<^verbatim>\<open>3\<close>
  the tokenizer compiles the string pattern \<^verbatim>\<open>+\<close> as \<^verbatim>\<open>^+\<close>, and \<^verbatim>\<open>new RegExp\<close> throws a
  \<^verbatim>\<open>SyntaxError\<close>. With the regular expression \<^verbatim>\<open>/\+/\<close> in the place of the string, the
  three tokens come out with the value \<^verbatim>\<open>""\<close>, and \<^verbatim>\<open>parse\<close> throws
  \<^verbatim>\<open>Expected token "NUM" but found "NUM"\<close> at cursor 0, since \<^verbatim>\<open>/\d+/\<close> does not accept the
  empty string. In neither case does \<^verbatim>\<open>parse\<close> return a tree.
\<close>

theorem parse_3_plus_4_fails:
  "(\<forall>k h. parse_input js_engine (arrays_of [GrammarRule [num, plus_lit, num] None None None])
             k grammar0 (ascii ''3+4'') h () = Inl SyntaxError) \<and>
   error_of (parse_input js_engine (arrays_of [GrammarRule [num, plus_rx, num] None None None])
             10 grammar0 (ascii ''3+4'') empty_heap ()) =
     Some (ParserError (ascii ''Expected token '' @ [dq] @ ascii ''NUM'' @ [dq] @
                        ascii '' but found '' @ [dq] @ ascii ''NUM'' @ [dq]) 0 0)"
proof
  have "Parser_new js_engine (arrays_of [GrammarRule [num, plus_lit, num] None None None])
          grammar0 (ascii ''3+4'') () = Inl SyntaxError"
    by code_simp
  then show "\<forall>k h. parse_input js_engine
             (arrays_of [GrammarRule [num, plus_lit, num] None None None])
             k grammar0 (ascii ''3+4'') h () = Inl SyntaxError"
    by (simp add: parse_input_def)
next
  show "error_of (parse_input js_engine
             (arrays_of [GrammarRule [num, plus_rx, num] None None None])
             10 grammar0 (ascii ''3+4'') empty_heap ()) =
     Some (ParserError (ascii ''Expected token '' @ [dq] @ ascii ''NUM'' @ [dq] @
                        ascii '' but found '' @ [dq] @ ascii ''NUM'' @ [dq]) 0 0)"
    by code_simp
qed

definition rule_ab :: "regexp GrammarRule" where
  "rule_ab = GrammarRule [named CHR ''a'' ''A'', named CHR ''b'' ''B''] None None
               (Some (ascii ''ab''))"

text \<open>
  Claim C7. The rule \<^verbatim>\<open>[/a/ "A", /b/ "B"]\<close> matches the input \<^verbatim>\<open>ab\<close> value for value: at
  offset 0 the tokenizer matches \<^verbatim>\<open>a\<close> with the first definition, at offset 1 it matches
  \<^verbatim>\<open>b\<close> with the second. The two tokens it emits carry the value \<^verbatim>\<open>""\<close> in the place
  of the matched text, \<^verbatim>\<open>/a/\<close> does not accept the empty string, and \<^verbatim>\<open>parse\<close> throws
  \<^verbatim>\<open>Expected token "A" but found "A"\<close> at cursor 0: no tree is returned. On the stream
  that carries the matched text, the same \<^verbatim>\<open>parse\<close> returns the tree of the claim: the
  root and its two children, in the order of the stream, with the values \<^verbatim>\<open>a\<close> and \<^verbatim>\<open>b\<close>,
  each without children and with the root as parent.
\<close>

theorem parse_flat_tree_lost:
  "matchToken js_engine (Tokenizer (r_tokens rule_ab) (ascii ''ab'')) (named CHR ''a'' ''A'') () =
     Inr (Some (ascii ''a''), ()) \<and>
   matchToken js_engine ((Tokenizer (r_tokens rule_ab) (ascii ''ab'')) \<lparr>t_position := 1\<rparr>)
       (named CHR ''b'' ''B'') () =
     Inr (Some (ascii ''b''), ()) \<and>
   (case Parser_new js_engine (arrays_of [rule_ab]) grammar0 (ascii ''ab'') () of
      Inl e \<Rightarrow> False
    | Inr (this, st) \<Rightarrow>
        map tk_name (p_tokens this) = [Some (ascii ''A''), Some (ascii ''B'')] \<and>
        map tk_value (p_tokens this) = [[], []] \<and>
        error_of (parse js_engine (arrays_of [rule_ab]) 10 this empty_heap st) =
          Some (ParserError (ascii ''Expected token '' @ [dq] @ ascii ''A'' @ [dq] @
                             ascii '' but found '' @ [dq] @ ascii ''A'' @ [dq]) 0 0)) \<and>
   (case parse js_engine (arrays_of [rule_ab]) 10
           \<lparr>p_grammar = grammar0,
            p_tokens = [emitted (named CHR ''a'' ''A'') ''a'', emitted (named CHR ''b'' ''B'') ''b''],
            p_position = 0\<rparr>
           empty_heap () of
      Inl e \<Rightarrow> False
    | Inr (tree, this', h', st') \<Rightarrow>
        getNodesPreOrder 10 h' tree = Inr [root tree, 1, 2] \<and>
        children_of h' (root tree) = [1, 2] \<and>
        map (\<lambda>c. tk_value (n_value (cells h' c))) [1, 2] = [ascii ''a'', ascii ''b''] \<and>
        map (\<lambda>c. children_of h' c) [1, 2] = [[], []] \<and>
        map (\<lambda>c. getParent h' c) [1, 2] = [Some (root tree), Some (root tree)])"
  by code_simp

text \<open>
  Claim C10. There are inputs on which the rule fails at a cursor where a token stands and
  the message still says \<^verbatim>\<open>"end of input"\<close>: for the rule \<^verbatim>\<open>[/b/, /a/]\<close> with definitions
  that have no name, and for the same rule with definitions named by the empty string,
  the input \<^verbatim>\<open>a\<close> gives one token; the first token of the rule does not accept it, the
  cursor (0) is inside the stream, and the message reports \<^verbatim>\<open>"end of input"\<close> for the token
  found.
\<close>

theorem end_of_input_with_token_present:
  "(case Parser_new js_engine
           (arrays_of [GrammarRule [unnamed CHR ''b'', unnamed CHR ''a''] None None None])
           grammar0 (ascii ''a'') () of
      Inl e \<Rightarrow> False
    | Inr (this, st) \<Rightarrow>
        p_position this < length (p_tokens this) \<and>
        tk_name (p_tokens this ! p_position this) = None \<and>
        error_of (parse js_engine
           (arrays_of [GrammarRule [unnamed CHR ''b'', unnamed CHR ''a''] None None None])
           10 this empty_heap st) =
          Some (ParserError (ascii ''Expected token '' @ [dq] @ ascii ''undefined'' @ [dq] @
                             ascii '' but found '' @ [dq] @ ascii ''end of input'' @ [dq])
                  0 (p_position this))) \<and>
   (case Parser_new js_engine
           (arrays_of [GrammarRule [named_empty CHR ''b'', named_empty CHR ''a''] None None None])
           grammar0 (ascii ''a'') () of
      Inl e \<Rightarrow> False
    | Inr (this, st) \<Rightarrow>
        p_position this < length (p_tokens this) \<and>
        tk_name (p_tokens this ! p_position this) = Some [] \<and>
        error_of (parse js_engine
           (arrays_of [GrammarRule [named_empty CHR ''b'', named_empty CHR ''a''] None None None])
           10 this empty_heap st) =
          Some (ParserError (ascii ''Expected token '' @ [dq] @ [] @ [dq] @
                             ascii '' but found '' @ [dq] @ ascii ''end of input'' @ [dq])
                  0 (p_position this)))"
  by code_simp

section \<open>AstTree: the leaves\<close>















lemma cells_push: "cells (push_child h p n) = cells h"
  by (simp add: push_child_def)












end
